theory Spec2Isabelle
  imports Complex_Main "HOL-Library.AList" "HOL-Library.Monad_Syntax" "HOL-Library.Sublist"
    "HOL-Library.Log_Nat"
begin

section \<open>The data model of the architecture game\<close>

text \<open>
  The enums of \<open>value-objects/layer-id.ts\<close> and \<open>models/code-block.ts\<close>. Their string
  values (\<open>'presentation'\<close>, \<open>'ui-component'\<close>, ...) are never inspected, so a constructor
  stands for each member.
\<close>

datatype LayerId = Presentation | Application | Domain | Infrastructure

datatype BlockType = UIComponent | Entity | ValueObject | Service | UseCase | DTO
  | Repository | RepositoryImpl | Controller | DomainService

record BlockProperty =
  prop_name :: string
  prop_type :: string

record BlockMethod =
  method_name :: string
  method_lines :: int

text \<open>
  A \<open>CodeBlock\<close>: the constructor computes \<open>id\<close> from the type, the name and the clock
  (\<open>`${type}-${name}-${Date.now()}`\<close>), so in the model the identifier is a field that the
  caller supplies. Two blocks built with the same type and name in the same millisecond have
  the same identifier.
\<close>

record CodeBlock =
  block_id :: string
  block_name :: string
  block_type :: BlockType
  properties :: "BlockProperty list"
  methods :: "BlockMethod list"

definition isUIComponent :: "CodeBlock \<Rightarrow> bool" where
  "isUIComponent b = (block_type b = UIComponent)"

definition isEntity :: "CodeBlock \<Rightarrow> bool" where
  "isEntity b = (block_type b = Entity)"

definition isValueObject :: "CodeBlock \<Rightarrow> bool" where
  "isValueObject b = (block_type b = ValueObject)"

definition isDomainModel :: "CodeBlock \<Rightarrow> bool" where
  "isDomainModel b = (isEntity b \<or> isValueObject b \<or> block_type b = DomainService)"

definition isInfrastructure :: "CodeBlock \<Rightarrow> bool" where
  "isInfrastructure b = (block_type b = RepositoryImpl)"

text \<open>
  A \<open>Layer\<close> holds a JavaScript \<open>Set<string>\<close> of block identifiers. A \<open>Set\<close> keeps
  insertion order and ignores the insertion of a member, so it is a list without
  duplicates that \<open>add\<close> extends at the end. The display name of a layer (a fixed Japanese
  text) is never read and is left out.
\<close>

record Layer =
  layer_id :: LayerId
  layer_blocks :: "string list"

definition Layer_addBlock :: "string \<Rightarrow> Layer \<Rightarrow> Layer" where
  "Layer_addBlock blockId l =
     (if blockId \<in> set (layer_blocks l) then l
      else l\<lparr>layer_blocks := layer_blocks l @ [blockId]\<rparr>)"

definition hasBlock :: "Layer \<Rightarrow> string \<Rightarrow> bool" where
  "hasBlock l blockId = (blockId \<in> set (layer_blocks l))"

definition getBlocks :: "Layer \<Rightarrow> string list" where
  "getBlocks l = layer_blocks l"

text \<open>
  The class \<open>Connection\<close>, which the sources hold at the end of
  \<open>models/game-session.ts\<close>: two read-only strings, \<open>from\<close> and \<open>to\<close>, set by the
  constructor. Its method \<open>equals\<close> compares both fields, which is the equality of the
  record.
\<close>

record Connection =
  conn_from :: string
  conn_to :: string

text \<open>
  \<open>LayerStructure\<close>: \<open>layers\<close> is a \<open>Map<LayerId, Layer>\<close>, \<open>blocks\<close> a
  \<open>Map<string, {block, layerId}>\<close> and \<open>connections\<close> an array. The block map is
  iterated (\<open>blocks.keys()\<close>) in insertion order, so it is an association list:
  \<open>map_of\<close> is \<open>get\<close> and \<open>AList.update\<close> is \<open>set\<close> (a new key goes to the end, an
  existing key keeps its place and takes the new value).
\<close>

record BlockEntry =
  block :: CodeBlock
  layerId :: LayerId

record LayerStructure =
  layers :: "LayerId \<Rightarrow> Layer option"
  blocks :: "(string \<times> BlockEntry) list"
  connections :: "Connection list"

text \<open>
  \<open>Result.fail(message)\<close>: one constructor for each message of \<open>layer-structure.ts\<close>, in
  the order they appear there.
\<close>

datatype failure =
    UIComponentOnlyInPresentation
  | DomainModelOnlyInDomain
  | RepositoryImplOnlyInInfrastructure
  | LayerDoesNotExist
  | BlockDoesNotExist
  | DomainDependsOnOtherLayer
  | PresentationDependsOnInfrastructure
  | PresentationDependsOnDomain
  | ApplicationDependsOnPresentation
  | InfrastructureDependsOnUpperLayer

type_synonym 'a Result = "failure + 'a"

definition isSuccess :: "'a Result \<Rightarrow> bool" where
  "isSuccess r = (case r of Inl _ \<Rightarrow> False | Inr _ \<Rightarrow> True)"

definition isFailure :: "'a Result \<Rightarrow> bool" where
  "isFailure r = (\<not> isSuccess r)"

section \<open>The graph model: \<open>LayerStructure\<close>\<close>

definition create :: LayerStructure where
  "create = \<lparr>layers = (\<lambda>l. Some \<lparr>layer_id = l, layer_blocks = []\<rparr>),
             blocks = [], connections = []\<rparr>"

definition validateBlockPlacement :: "LayerId \<Rightarrow> CodeBlock \<Rightarrow> unit Result" where
  "validateBlockPlacement lid b =
     (if isUIComponent b \<and> lid \<noteq> Presentation then Inl UIComponentOnlyInPresentation
      else if isDomainModel b \<and> lid \<noteq> Domain then Inl DomainModelOnlyInDomain
      else if isInfrastructure b \<and> lid \<noteq> Infrastructure
        then Inl RepositoryImplOnlyInInfrastructure
      else Inr ())"

text \<open>
  Mutating methods return the result together with the structure after the call; a call
  that returns before its first mutation returns the structure it was given.
\<close>

definition addBlock :: "LayerId \<Rightarrow> CodeBlock \<Rightarrow> LayerStructure \<Rightarrow> unit Result \<times> LayerStructure" where
  "addBlock lid b s =
     (case validateBlockPlacement lid b of
        Inl e \<Rightarrow> (Inl e, s)
      | Inr _ \<Rightarrow>
          (case layers s lid of
             None \<Rightarrow> (Inl LayerDoesNotExist, s)
           | Some layer \<Rightarrow>
               (Inr (),
                s\<lparr>layers := (layers s)(lid \<mapsto> Layer_addBlock (block_id b) layer),
                  blocks := AList.update (block_id b) \<lparr>block = b, layerId = lid\<rparr> (blocks s)\<rparr>)))"

definition validateDependency :: "LayerId \<Rightarrow> LayerId \<Rightarrow> unit Result" where
  "validateDependency fromLayer toLayer =
     (if fromLayer = Domain \<and> toLayer \<noteq> Domain then Inl DomainDependsOnOtherLayer
      else if fromLayer = Presentation \<and> toLayer = Infrastructure
        then Inl PresentationDependsOnInfrastructure
      else if fromLayer = Presentation \<and> toLayer = Domain
        then Inl PresentationDependsOnDomain
      else if fromLayer = Application \<and> toLayer = Presentation
        then Inl ApplicationDependsOnPresentation
      else if fromLayer = Infrastructure \<and> (toLayer = Presentation \<or> toLayer = Application)
        then Inl InfrastructureDependsOnUpperLayer
      else Inr ())"

definition createConnection ::
    "string \<Rightarrow> string \<Rightarrow> LayerStructure \<Rightarrow> Connection Result \<times> LayerStructure" where
  "createConnection fromBlockId toBlockId s =
     (case (map_of (blocks s) fromBlockId, map_of (blocks s) toBlockId) of
        (Some fromBlock, Some toBlock) \<Rightarrow>
          (case validateDependency (layerId fromBlock) (layerId toBlock) of
             Inl e \<Rightarrow> (Inl e, s)
           | Inr _ \<Rightarrow>
               (let connection = \<lparr>conn_from = fromBlockId, conn_to = toBlockId\<rparr>
                in (Inr connection, s\<lparr>connections := connections s @ [connection]\<rparr>)))
      | _ \<Rightarrow> (Inl BlockDoesNotExist, s))"

text \<open>\<open>getLayer\<close> throws when the layer is missing; \<open>None\<close> stands for the throw.\<close>

definition getLayer :: "LayerId \<Rightarrow> LayerStructure \<Rightarrow> Layer option" where
  "getLayer lid s = layers s lid"

subsection \<open>The tables of the specification\<close>

text \<open>
  The five direction rules as the specification lists them (section 4.1), each a condition
  on (source layer, target layer) with its failure, kept in the order of the list.
\<close>

definition direction_rules :: "((LayerId \<Rightarrow> LayerId \<Rightarrow> bool) \<times> failure) list" where
  "direction_rules =
     [(\<lambda>f t. f = Domain \<and> t \<noteq> Domain, DomainDependsOnOtherLayer),
      (\<lambda>f t. f = Presentation \<and> t = Infrastructure, PresentationDependsOnInfrastructure),
      (\<lambda>f t. f = Presentation \<and> t = Domain, PresentationDependsOnDomain),
      (\<lambda>f t. f = Application \<and> t = Presentation, ApplicationDependsOnPresentation),
      (\<lambda>f t. f = Infrastructure \<and> (t = Presentation \<or> t = Application),
         InfrastructureDependsOnUpperLayer)]"

fun first_failure :: "((LayerId \<Rightarrow> LayerId \<Rightarrow> bool) \<times> failure) list \<Rightarrow> LayerId \<Rightarrow> LayerId
    \<Rightarrow> failure option" where
  "first_failure [] f t = None"
| "first_failure ((c, e) # rs) f t = (if c f t then Some e else first_failure rs f t)"

text \<open>The directed pairs that no rule forbids.\<close>

definition legal_pairs :: "(LayerId \<times> LayerId) list" where
  "legal_pairs =
     [(Presentation, Presentation), (Presentation, Application),
      (Application, Application), (Application, Domain), (Application, Infrastructure),
      (Domain, Domain),
      (Infrastructure, Domain), (Infrastructure, Infrastructure)]"

text \<open>The placement table of the specification (section 4.1, \<open>addBlock\<close>).\<close>

definition placement_compatible :: "BlockType \<Rightarrow> LayerId \<Rightarrow> bool" where
  "placement_compatible t l =
     (case t of
        UIComponent \<Rightarrow> l = Presentation
      | Entity \<Rightarrow> l = Domain
      | ValueObject \<Rightarrow> l = Domain
      | DomainService \<Rightarrow> l = Domain
      | RepositoryImpl \<Rightarrow> l = Infrastructure
      | Service \<Rightarrow> True
      | UseCase \<Rightarrow> True
      | DTO \<Rightarrow> True
      | Repository \<Rightarrow> True
      | Controller \<Rightarrow> True)"

section \<open>The rule engine: \<open>ArchitectureValidator\<close>\<close>

text \<open>
  A \<open>Violation\<close> is \<open>{type, message, details?}\<close>. The messages are Japanese templates
  filled with names and numbers; a constructor stands for each template and carries what
  the template interpolates. \<open>details\<close> is one of five object shapes.
\<close>

datatype violation_message =
    CyclicDependencyDetected string
  | PresentationDependsOnInfra "string option" "string option"
  | DtoHasUIConcern string string
  | TooManyMethods string int int
  | MethodTooLong string string int int

datatype violation_details =
    CycleDetails "string list"
  | ConnectionDetails string string
  | DtoDetails string string string
  | MethodCountDetails string int int
  | MethodLinesDetails string string int int

record Violation =
  violation_type :: string
  message :: violation_message
  details :: "violation_details option"

record ValidationResult =
  isValid :: bool
  violations :: "Violation list"
  score :: "int option"

datatype ValidationRule =
    NoDependencyViolation
  | NoCyclicDependency
  | NoPresentationToInfra
  | NoUIInDTO
  | NoFatService
  | NoDomainLogicInController
  | RequireInterfaceForRepository

datatype severity = SeverityError | SeverityWarning

text \<open>
  \<open>params\<close> is an optional \<open>Record<string, unknown>\<close>; the validator reads two of its
  entries as numbers.
\<close>

record RuleConfig =
  enabled :: bool
  severity :: severity
  params :: "(string \<Rightarrow> int option) option"

definition DEFAULT_RULE_CONFIGS :: "ValidationRule \<Rightarrow> RuleConfig" where
  "DEFAULT_RULE_CONFIGS rule =
     (case rule of
        NoDependencyViolation \<Rightarrow> \<lparr>enabled = True, severity = SeverityError, params = None\<rparr>
      | NoCyclicDependency \<Rightarrow> \<lparr>enabled = True, severity = SeverityError, params = None\<rparr>
      | NoPresentationToInfra \<Rightarrow> \<lparr>enabled = True, severity = SeverityError, params = None\<rparr>
      | NoUIInDTO \<Rightarrow> \<lparr>enabled = True, severity = SeverityError, params = None\<rparr>
      | NoFatService \<Rightarrow> \<lparr>enabled = True, severity = SeverityWarning,
          params = Some ([''maxMethods'' \<mapsto> 20, ''maxLines'' \<mapsto> 200])\<rparr>
      | NoDomainLogicInController \<Rightarrow>
          \<lparr>enabled = True, severity = SeverityWarning, params = None\<rparr>
      | RequireInterfaceForRepository \<Rightarrow>
          \<lparr>enabled = True, severity = SeverityWarning, params = None\<rparr>)"

text \<open>
  Modelled from the spec: the validator calls four getters of \<open>LayerStructure\<close> that the
  sources do not hold (\<open>getConnections\<close>, \<open>getBlockLayer\<close>, \<open>getBlock\<close>,
  \<open>getAllBlocks\<close>); they read the connection list and the block map of the data model
  (section 3 of the specification). The fifth missing method, \<open>detectAllCycles\<close>, is a
  parameter of the validator's functions.
\<close>

definition getConnections :: "LayerStructure \<Rightarrow> Connection list" where
  "getConnections s = connections s"

definition getBlockLayer :: "LayerStructure \<Rightarrow> string \<Rightarrow> LayerId option" where
  "getBlockLayer s blockId = map_option layerId (map_of (blocks s) blockId)"

definition getBlock :: "LayerStructure \<Rightarrow> string \<Rightarrow> BlockEntry option" where
  "getBlock s blockId = map_of (blocks s) blockId"

definition getAllBlocks :: "LayerStructure \<Rightarrow> BlockEntry list" where
  "getAllBlocks s = map snd (blocks s)"

text \<open>\<open>Array.prototype.join\<close> on strings.\<close>

fun join :: "string \<Rightarrow> string list \<Rightarrow> string" where
  "join sep [] = []"
| "join sep [x] = x"
| "join sep (x # y # ys) = x @ sep @ join sep (y # ys)"

text \<open>
  \<open>validateDependencyDirection\<close> ignores its argument (the source names it
  \<open>_structure\<close>) and returns the array it has just created.
\<close>

definition validateDependencyDirection :: "LayerStructure \<Rightarrow> Violation list" where
  "validateDependencyDirection unused_structure = []"

definition validateNoCyclicDependency ::
    "(LayerStructure \<Rightarrow> string list list) \<Rightarrow> LayerStructure \<Rightarrow> Violation list" where
  "validateNoCyclicDependency detectAllCycles s =
     map (\<lambda>cycle. \<lparr>violation_type = ''CYCLIC_DEPENDENCY'',
                    message = CyclicDependencyDetected (join '' -> '' cycle),
                    details = Some (CycleDetails cycle)\<rparr>)
       (detectAllCycles s)"

definition validateNoPresentationToInfra :: "LayerStructure \<Rightarrow> Violation list" where
  "validateNoPresentationToInfra s =
     concat (map (\<lambda>connection.
        if getBlockLayer s (conn_from connection) = Some Presentation
           \<and> getBlockLayer s (conn_to connection) = Some Infrastructure
        then [\<lparr>violation_type = ''PRESENTATION_TO_INFRA'',
               message = PresentationDependsOnInfra
                 (map_option (block_name \<circ> block) (getBlock s (conn_from connection)))
                 (map_option (block_name \<circ> block) (getBlock s (conn_to connection))),
               details = Some (ConnectionDetails (conn_from connection) (conn_to connection))\<rparr>]
        else [])
       (getConnections s))"

definition isUIRelatedType :: "string \<Rightarrow> bool" where
  "isUIRelatedType t =
     list_ex (\<lambda>uiType. sublist uiType t)
       [''onClick'', ''onSubmit'', ''onChange'', ''onFocus'', ''onBlur'',
        ''() => void'', ''EventHandler'', ''MouseEvent'', ''KeyboardEvent'',
        ''FormEvent'', ''ChangeEvent'', ''FocusEvent'']"

definition validateDTOPurity :: "LayerStructure \<Rightarrow> Violation list" where
  "validateDTOPurity s =
     concat (map (\<lambda>entry.
        if block_type (block entry) \<noteq> DTO then []
        else concat (map (\<lambda>property.
          if isUIRelatedType (prop_type property)
          then [\<lparr>violation_type = ''DTO_PURITY_VIOLATION'',
                 message = DtoHasUIConcern (block_name (block entry)) (prop_name property),
                 details = Some (DtoDetails (block_name (block entry)) (prop_name property)
                   (prop_type property))\<rparr>]
          else [])
         (properties (block entry))))
       (getAllBlocks s))"

text \<open>
  \<open>(config.params?.maxMethods as number) || 20\<close>: the default also replaces a stored
  \<open>0\<close>, which is falsy.
\<close>

definition param_or :: "RuleConfig \<Rightarrow> string \<Rightarrow> int \<Rightarrow> int" where
  "param_or config key dflt =
     (case params config of
        None \<Rightarrow> dflt
      | Some ps \<Rightarrow> (case ps key of None \<Rightarrow> dflt | Some n \<Rightarrow> if n = 0 then dflt else n))"

definition validateNoFatService ::
    "(ValidationRule \<Rightarrow> RuleConfig) \<Rightarrow> LayerStructure \<Rightarrow> Violation list" where
  "validateNoFatService ruleConfigs s =
     (let config = ruleConfigs NoFatService;
          maxMethods = param_or config ''maxMethods'' 20;
          maxLines = param_or config ''maxLines'' 200
      in concat (map (\<lambda>entry.
           if block_type (block entry) \<noteq> Service then []
           else
             (if int (length (methods (block entry))) > maxMethods
              then [\<lparr>violation_type = ''FAT_SERVICE'',
                     message = TooManyMethods (block_name (block entry))
                       (int (length (methods (block entry)))) maxMethods,
                     details = Some (MethodCountDetails (block_name (block entry))
                       (int (length (methods (block entry)))) maxMethods)\<rparr>]
              else [])
             @ concat (map (\<lambda>m.
                 if method_lines m > maxLines
                 then [\<lparr>violation_type = ''FAT_SERVICE'',
                        message = MethodTooLong (block_name (block entry)) (method_name m)
                          (method_lines m) maxLines,
                        details = Some (MethodLinesDetails (block_name (block entry))
                          (method_name m) (method_lines m) maxLines)\<rparr>]
                 else [])
                (methods (block entry))))
          (getAllBlocks s)))"

definition validateRule ::
    "(LayerStructure \<Rightarrow> string list list) \<Rightarrow> (ValidationRule \<Rightarrow> RuleConfig)
      \<Rightarrow> ValidationRule \<Rightarrow> LayerStructure \<Rightarrow> Violation list" where
  "validateRule detectAllCycles ruleConfigs rule s =
     (case rule of
        NoDependencyViolation \<Rightarrow> validateDependencyDirection s
      | NoCyclicDependency \<Rightarrow> validateNoCyclicDependency detectAllCycles s
      | NoPresentationToInfra \<Rightarrow> validateNoPresentationToInfra s
      | NoUIInDTO \<Rightarrow> validateDTOPurity s
      | NoFatService \<Rightarrow> validateNoFatService ruleConfigs s
      | NoDomainLogicInController \<Rightarrow> []
      | RequireInterfaceForRepository \<Rightarrow> [])"

text \<open>
  \<open>calculateScore\<close>: the loop over the violations, with the running score as its
  accumulator, then the clamp. The scores are small integers, exact as JavaScript numbers.
\<close>

fun calculateScore_loop :: "int \<Rightarrow> Violation list \<Rightarrow> int" where
  "calculateScore_loop running [] = running"
| "calculateScore_loop running (violation # rest) =
     calculateScore_loop
       (if violation_type violation = ''CYCLIC_DEPENDENCY'' then running - 30
        else if violation_type violation = ''DEPENDENCY_VIOLATION'' then running - 20
        else if violation_type violation = ''DTO_PURITY_VIOLATION'' then running - 15
        else if violation_type violation = ''PRESENTATION_TO_INFRA'' then running - 15
        else if violation_type violation = ''FAT_SERVICE'' then running - 10
        else running - 5)
       rest"

definition calculateScore :: "Violation list \<Rightarrow> int" where
  "calculateScore vs = max 0 (min 100 (calculateScore_loop 100 vs))"

text \<open>
  \<open>ArchitectureValidator.validate\<close>: the loop over the configured rules, which skips a
  disabled rule and appends the violations of an enabled one, then the score.
\<close>

fun validate_rules ::
    "(LayerStructure \<Rightarrow> string list list) \<Rightarrow> (ValidationRule \<Rightarrow> RuleConfig)
      \<Rightarrow> ValidationRule list \<Rightarrow> LayerStructure \<Rightarrow> Violation list \<Rightarrow> Violation list" where
  "validate_rules detectAllCycles ruleConfigs [] s acc = acc"
| "validate_rules detectAllCycles ruleConfigs (rule # rest) s acc =
     (if \<not> enabled (ruleConfigs rule) then validate_rules detectAllCycles ruleConfigs rest s acc
      else validate_rules detectAllCycles ruleConfigs rest s
             (acc @ validateRule detectAllCycles ruleConfigs rule s))"

definition ArchitectureValidator_validate ::
    "(LayerStructure \<Rightarrow> string list list) \<Rightarrow> ValidationRule list
      \<Rightarrow> (ValidationRule \<Rightarrow> RuleConfig) \<Rightarrow> LayerStructure \<Rightarrow> ValidationResult" where
  "ArchitectureValidator_validate detectAllCycles rules ruleConfigs s =
     (let vs = validate_rules detectAllCycles ruleConfigs rules s []
      in \<lparr>isValid = (length vs = 0), violations = vs, score = Some (calculateScore vs)\<rparr>)"

text \<open>The penalty table of the specification (section 4.4), by violation type.\<close>

definition violation_penalty :: "string \<Rightarrow> int" where
  "violation_penalty t =
     (if t = ''CYCLIC_DEPENDENCY'' then 30
      else if t = ''DEPENDENCY_VIOLATION'' then 20
      else if t = ''DTO_PURITY_VIOLATION'' then 15
      else if t = ''PRESENTATION_TO_INFRA'' then 15
      else if t = ''FAT_SERVICE'' then 10
      else 5)"

section \<open>Cycle detection\<close>

text \<open>
  \<open>detectCyclicDependency\<close> builds an adjacency list from the connections, then runs a
  depth-first search from every block that is not yet visited, in the order of the block
  map's keys. The three mutable containers that the search shares (the sets \<open>visited\<close>
  and \<open>recursionStack\<close>, the array \<open>path\<close>) are the state that the model threads
  through the calls.
\<close>

record dfs_state =
  visited :: "string set"
  recursionStack :: "string set"
  path :: "string list"

text \<open>
  The loop body that adds one connection to the adjacency list: create the key with an
  empty array when it is missing, then push the target.
\<close>

definition adjacency_add :: "(string \<Rightarrow> string list option) \<Rightarrow> Connection \<Rightarrow> (string \<Rightarrow> string list option)" where
  "adjacency_add adjacencyList connection =
     (let withKey = (if adjacencyList (conn_from connection) = None
                     then adjacencyList(conn_from connection \<mapsto> [])
                     else adjacencyList)
      in (case withKey (conn_from connection) of
            None \<Rightarrow> withKey
          | Some tos \<Rightarrow> withKey(conn_from connection \<mapsto> tos @ [conn_to connection])))"

definition buildAdjacencyList :: "Connection list \<Rightarrow> (string \<Rightarrow> string list option)" where
  "buildAdjacencyList conns = foldl adjacency_add Map.empty conns"

definition neighbors_of :: "(string \<Rightarrow> string list option) \<Rightarrow> string \<Rightarrow> string list" where
  "neighbors_of adjacencyList node = (case adjacencyList node of None \<Rightarrow> [] | Some ns \<Rightarrow> ns)"

text \<open>
  \<open>Array.prototype.indexOf\<close> (\<open>-1\<close> when the element is missing) and
  \<open>Array.prototype.slice\<close> with one argument (a negative start counts from the end).
\<close>

fun indexOf_from :: "'a list \<Rightarrow> 'a \<Rightarrow> int \<Rightarrow> int" where
  "indexOf_from [] x i = - 1"
| "indexOf_from (y # ys) x i = (if y = x then i else indexOf_from ys x (i + 1))"

definition indexOf :: "'a list \<Rightarrow> 'a \<Rightarrow> int" where
  "indexOf xs x = indexOf_from xs x 0"

definition slice :: "'a list \<Rightarrow> int \<Rightarrow> 'a list" where
  "slice xs start =
     (let n = int (length xs);
          k = (if start < 0 then max (n + start) 0 else min start n)
      in drop (nat k) xs)"

text \<open>
  The first three statements of \<open>dfsDetectCycle\<close> (\<open>enter\<close>) and its last two before
  \<open>return null\<close> (\<open>leave\<close>).
\<close>

definition enter :: "string \<Rightarrow> dfs_state \<Rightarrow> dfs_state" where
  "enter node st = st\<lparr>visited := insert node (visited st),
     recursionStack := insert node (recursionStack st), path := path st @ [node]\<rparr>"

definition leave :: "string \<Rightarrow> dfs_state \<Rightarrow> dfs_state" where
  "leave node st = st\<lparr>recursionStack := recursionStack st - {node}, path := butlast (path st)\<rparr>"

text \<open>
  The \<open>for\<close> loop of \<open>dfsDetectCycle\<close> over the neighbours that remain, for the node
  whose loop it is. A neighbour that is not visited is entered and its own loop runs first
  (the recursive call of \<open>dfsDetectCycle\<close>); a cycle found there is returned at once, with
  the state as it stands. The search may in principle not return, so the result is an
  \<open>option\<close>: \<open>None\<close> is a search that does not return.
\<close>

partial_function (option) dfs_neighbors ::
  "(string \<Rightarrow> string list option) \<Rightarrow> string \<Rightarrow> string list \<Rightarrow> dfs_state
    \<Rightarrow> (string list option \<times> dfs_state) option" where
  "dfs_neighbors adjacencyList node neighbors st =
     (case neighbors of
        [] \<Rightarrow> Some (None, leave node st)
      | neighbor # rest \<Rightarrow>
          if neighbor \<notin> visited st then
            Option.bind
              (dfs_neighbors adjacencyList neighbor (neighbors_of adjacencyList neighbor)
                 (enter neighbor st))
              (\<lambda>(cycle, st'). case cycle of
                   Some c \<Rightarrow> Some (Some c, st')
                 | None \<Rightarrow> dfs_neighbors adjacencyList node rest st')
          else if neighbor \<in> recursionStack st then
            Some (Some (slice (path st) (indexOf (path st) neighbor) @ [neighbor]), st)
          else dfs_neighbors adjacencyList node rest st)"

definition dfsDetectCycle ::
    "(string \<Rightarrow> string list option) \<Rightarrow> string \<Rightarrow> dfs_state
      \<Rightarrow> (string list option \<times> dfs_state) option" where
  "dfsDetectCycle adjacencyList node st =
     dfs_neighbors adjacencyList node (neighbors_of adjacencyList node) (enter node st)"

text \<open>The loop of \<open>detectCyclicDependency\<close> over \<open>this.blocks.keys()\<close>.\<close>

fun detect_from_roots ::
    "(string \<Rightarrow> string list option) \<Rightarrow> string list \<Rightarrow> dfs_state
      \<Rightarrow> string list option option" where
  "detect_from_roots adjacencyList [] st = Some None"
| "detect_from_roots adjacencyList (blockId # rest) st =
     (if blockId \<notin> visited st then
        Option.bind (dfsDetectCycle adjacencyList blockId st)
          (\<lambda>(cycle, st'). case cycle of
               Some c \<Rightarrow> Some (Some c)
             | None \<Rightarrow> detect_from_roots adjacencyList rest st')
      else detect_from_roots adjacencyList rest st)"


definition edges_of :: "(string \<Rightarrow> string list option) \<Rightarrow> (string \<times> string) set" where
  "edges_of adjacencyList = {(a, b). b \<in> set (neighbors_of adjacencyList a)}"


definition dfs_pre ::
  "(string \<Rightarrow> string list option) \<Rightarrow> string \<Rightarrow> string list \<Rightarrow> dfs_state \<Rightarrow> bool" where
  "dfs_pre adj node ns st =
     (path st \<noteq> [] \<and> last (path st) = node \<and> recursionStack st = set (path st)
      \<and> set (path st) \<subseteq> visited st \<and> distinct (path st)
      \<and> successively (\<lambda>a b. (a, b) \<in> edges_of adj) (path st)
      \<and> set ns \<subseteq> set (neighbors_of adj node))"


definition reported ::
  "(string \<Rightarrow> string list option) \<Rightarrow> string list \<Rightarrow> string list \<Rightarrow> bool" where
  "reported adj p cycle =
     (\<exists>c. p \<noteq> [] \<and> distinct p \<and> successively (\<lambda>a b. (a, b) \<in> edges_of adj) p
        \<and> c \<in> set p \<and> (last p, c) \<in> edges_of adj
        \<and> cycle = dropWhile (\<lambda>x. x \<noteq> c) p @ [c])"


definition dfs_post ::
  "(string \<Rightarrow> string list option) \<Rightarrow> string \<Rightarrow> dfs_state \<Rightarrow> string list option \<Rightarrow> dfs_state
    \<Rightarrow> bool" where
  "dfs_post adj node st r st' =
     (visited st \<subseteq> visited st'
      \<and> (case r of
           None \<Rightarrow> recursionStack st' = recursionStack st - {node}
                    \<and> path st' = butlast (path st)
         | Some cycle \<Rightarrow> prefix (path st) (path st') \<and> reported adj (path st') cycle))"


definition roots_post ::
  "(string \<Rightarrow> string list option) \<Rightarrow> string list \<Rightarrow> string list option \<Rightarrow> bool" where
  "roots_post adj roots r =
     (case r of None \<Rightarrow> True
      | Some cycle \<Rightarrow> \<exists>p. reported adj p cycle \<and> hd p \<in> set roots)"


definition initial_dfs_state :: dfs_state where
  "initial_dfs_state = \<lparr>visited = {}, recursionStack = {}, path = []\<rparr>"


text \<open>
  \<open>detectCyclicDependency\<close>, first as a function of the two fields it reads (the
  connections and the keys of the block map), then on the structure.
\<close>

definition detect :: "Connection list \<Rightarrow> string list \<Rightarrow> string list option option" where
  "detect conns keys = detect_from_roots (buildAdjacencyList conns) keys initial_dfs_state"


definition detectCyclicDependency :: "LayerStructure \<Rightarrow> string list option option" where
  "detectCyclicDependency s = detect (connections s) (map fst (blocks s))"

text \<open>\<open>ValidationResult.valid\<close>, \<open>ValidationResult.invalid\<close> and \<open>LayerStructure.validate\<close>.\<close>

definition ValidationResult_valid :: "int option \<Rightarrow> ValidationResult" where
  "ValidationResult_valid sc = \<lparr>isValid = True, violations = [], score = sc\<rparr>"

definition ValidationResult_invalid :: "Violation list \<Rightarrow> ValidationResult" where
  "ValidationResult_invalid vs = \<lparr>isValid = False, violations = vs, score = None\<rparr>"

definition validation_of :: "string list option \<Rightarrow> ValidationResult" where
  "validation_of cyclicDependency =
     (case cyclicDependency of
        Some cycle \<Rightarrow>
          ValidationResult_invalid
            [\<lparr>violation_type = ''CYCLIC_DEPENDENCY'',
              message = CyclicDependencyDetected (join '' -> '' cycle),
              details = Some (CycleDetails cycle)\<rparr>]
      | None \<Rightarrow> ValidationResult_valid None)"

definition LayerStructure_validate :: "LayerStructure \<Rightarrow> ValidationResult option" where
  "LayerStructure_validate s = map_option validation_of (detectCyclicDependency s)"

text \<open>The connections as a relation on block identifiers.\<close>

definition connection_edges :: "LayerStructure \<Rightarrow> (string \<times> string) set" where
  "connection_edges s = (\<lambda>c. (conn_from c, conn_to c)) ` set (connections s)"

text \<open>
  The shape of a report: \<open>p\<close> is a path of the search (it starts at a registered block,
  repeats no node and follows connections), \<open>c\<close> is a node of \<open>p\<close> to which the last
  node of \<open>p\<close> has a connection, and the report is \<open>p\<close> from \<open>c\<close> on, with \<open>c\<close>
  appended.
\<close>

definition closes_path :: "LayerStructure \<Rightarrow> string list \<Rightarrow> string \<Rightarrow> bool" where
  "closes_path s p c =
     (p \<noteq> [] \<and> hd p \<in> set (map fst (blocks s)) \<and> distinct p
      \<and> successively (\<lambda>a b. (a, b) \<in> connection_edges s) p
      \<and> c \<in> set p \<and> (last p, c) \<in> connection_edges s)"

section \<open>JavaScript numbers\<close>

text \<open>
  The composite score is computed on JavaScript numbers, which are IEEE 754 binary64
  values. A finite number is the rational it denotes; the two infinities and NaN are
  values of their own. The two zeros are one value here: the sign of a zero changes no
  comparison and no rounded score.
\<close>

datatype jsnum = Fin rat | PosInf | NegInf | NaN

text \<open>
  The binary exponent of a rational that is not zero, \<open>2 ^ expo x \<le> |x| < 2 ^ (expo x + 1)\<close>,
  computed from the bit lengths of integers.
\<close>

definition expo :: "rat \<Rightarrow> int" where
  "expo x = (if 1 \<le> \<bar>x\<bar> then bitlen \<lfloor>\<bar>x\<bar>\<rfloor> - 1 else - bitlen (\<lceil>1 / \<bar>x\<bar>\<rceil> - 1))"

text \<open>The nearest integer, a tie going to the even one.\<close>

definition round_half_even :: "rat \<Rightarrow> int" where
  "round_half_even x =
     (let f = \<lfloor>x\<rfloor>; d = x - of_int f
      in if d < 1 / 2 then f else if 1 / 2 < d then f + 1 else if even f then f else f + 1)"

text \<open>
  The binary64 value of an exact result (round to nearest, ties to even): 53 significant
  bits at the exponent of \<open>x\<close>, the spacing of the subnormal range below
  \<open>2 ^ - 1022\<close>, and an infinity once the rounded magnitude reaches \<open>2 ^ 1024\<close>.
  A decimal literal such as \<open>0.35\<close> denotes \<open>to_double (35 / 100)\<close>.
\<close>

definition to_double :: "rat \<Rightarrow> jsnum" where
  "to_double x =
     (if x = 0 then Fin 0
      else
        let e = max (expo x) (- 1022);
            q = 2 powi (e - 52);
            y = of_int (round_half_even (x / q)) * q
        in if 2 powi 1024 \<le> \<bar>y\<bar> then (if x < 0 then NegInf else PosInf) else Fin y)"

text \<open>The operators \<open>*\<close> and \<open>+\<close>, the comparisons \<open><\<close> and \<open>>\<close>, and \<open>Math.round\<close>
  (the nearest integer, a tie going up).\<close>

fun js_mul :: "jsnum \<Rightarrow> jsnum \<Rightarrow> jsnum" where
  "js_mul (Fin a) (Fin b) = to_double (a * b)"
| "js_mul NaN y = NaN"
| "js_mul x NaN = NaN"
| "js_mul (Fin a) PosInf = (if a = 0 then NaN else if 0 < a then PosInf else NegInf)"
| "js_mul (Fin a) NegInf = (if a = 0 then NaN else if 0 < a then NegInf else PosInf)"
| "js_mul PosInf (Fin b) = (if b = 0 then NaN else if 0 < b then PosInf else NegInf)"
| "js_mul NegInf (Fin b) = (if b = 0 then NaN else if 0 < b then NegInf else PosInf)"
| "js_mul PosInf PosInf = PosInf"
| "js_mul PosInf NegInf = NegInf"
| "js_mul NegInf PosInf = NegInf"
| "js_mul NegInf NegInf = PosInf"

fun js_add :: "jsnum \<Rightarrow> jsnum \<Rightarrow> jsnum" where
  "js_add (Fin a) (Fin b) = to_double (a + b)"
| "js_add NaN y = NaN"
| "js_add x NaN = NaN"
| "js_add PosInf NegInf = NaN"
| "js_add NegInf PosInf = NaN"
| "js_add PosInf y = PosInf"
| "js_add x PosInf = PosInf"
| "js_add NegInf y = NegInf"
| "js_add x NegInf = NegInf"

fun js_lt :: "jsnum \<Rightarrow> jsnum \<Rightarrow> bool" where
  "js_lt (Fin a) (Fin b) = (a < b)"
| "js_lt NaN y = False"
| "js_lt x NaN = False"
| "js_lt x NegInf = False"
| "js_lt PosInf y = False"
| "js_lt NegInf y = True"
| "js_lt x PosInf = True"

definition js_gt :: "jsnum \<Rightarrow> jsnum \<Rightarrow> bool" where
  "js_gt x y = js_lt y x"

fun Math_round :: "jsnum \<Rightarrow> jsnum" where
  "Math_round (Fin x) = Fin (of_int \<lfloor>x + 1 / 2\<rfloor>)"
| "Math_round PosInf = PosInf"
| "Math_round NegInf = NegInf"
| "Math_round NaN = NaN"

section \<open>The composite score: \<open>Score\<close>\<close>

text \<open>
  \<open>Score\<close>, \<open>Metrics\<close> and \<open>Bonus\<close> of \<open>value-objects/score.ts\<close>. The constructor and
  \<open>calculate\<close> throw an \<open>Error\<close>; a constructor of \<open>exception\<close> stands for each of
  the two messages.
\<close>

datatype exception = ScoreOutOfRange | MetricOutOfRange

record Metrics =
  accuracy :: jsnum
  efficiency :: jsnum
  maintainability :: jsnum
  speed :: jsnum

datatype bonus_type = NO_HINTS | NO_ANTIPATTERNS

record Bonus =
  bonus_type :: bonus_type
  multiplier :: jsnum

record Score =
  score_value :: jsnum

definition new_Score :: "jsnum \<Rightarrow> exception + Score" where
  "new_Score v =
     (if js_lt v (Fin 0) \<or> js_gt v (Fin 100) then Inl ScoreOutOfRange
      else Inr \<lparr>score_value = v\<rparr>)"

text \<open>The four entries of the constant \<open>WEIGHTS\<close>.\<close>

definition WEIGHTS_accuracy :: jsnum where "WEIGHTS_accuracy = to_double (35 / 100)"

definition WEIGHTS_efficiency :: jsnum where "WEIGHTS_efficiency = to_double (25 / 100)"

definition WEIGHTS_maintainability :: jsnum where "WEIGHTS_maintainability = to_double (25 / 100)"

definition WEIGHTS_speed :: jsnum where "WEIGHTS_speed = to_double (15 / 100)"

definition weightedSum :: "Metrics \<Rightarrow> jsnum" where
  "weightedSum metrics =
     js_add (js_add (js_add
       (js_mul (accuracy metrics) WEIGHTS_accuracy)
       (js_mul (efficiency metrics) WEIGHTS_efficiency))
       (js_mul (maintainability metrics) WEIGHTS_maintainability))
       (js_mul (speed metrics) WEIGHTS_speed)"

text \<open>
  \<open>calculate\<close>: the check of the four values (\<open>Object.values(metrics).forEach\<close>), then
  the rounded weighted sum, given to the constructor.
\<close>

definition calculate :: "Metrics \<Rightarrow> exception + Score" where
  "calculate metrics =
     (if list_ex (\<lambda>v. js_lt v (Fin 0) \<or> js_gt v (Fin 100))
           [accuracy metrics, efficiency metrics, maintainability metrics, speed metrics]
      then Inl MetricOutOfRange
      else new_Score (Math_round (weightedSum metrics)))"

definition addBonus :: "Score \<Rightarrow> Bonus \<Rightarrow> exception + Score" where
  "addBonus this bonus =
     (let newValue = js_mul (score_value this) (multiplier bonus)
      in new_Score (Math_round newValue))"

text \<open>The literal \<open>1.05\<close>, the multiplier of the bonuses in the tests.\<close>

definition literal_1_05 :: jsnum where
  "literal_1_05 = to_double (105 / 100)"

text \<open>
  A number lies in [0,100]; a number lies outside it, as the two comparisons of the code
  decide. NaN is in neither class: every comparison with NaN is false.
\<close>

definition in_0_100 :: "jsnum \<Rightarrow> bool" where
  "in_0_100 v = (case v of Fin x \<Rightarrow> 0 \<le> x \<and> x \<le> 100 | PosInf \<Rightarrow> False
     | NegInf \<Rightarrow> False | NaN \<Rightarrow> False)"

definition outside_0_100 :: "jsnum \<Rightarrow> bool" where
  "outside_0_100 v = (js_lt v (Fin 0) \<or> js_gt v (Fin 100))"

text \<open>
  The arithmetic of the specification, on exact rationals: the weighted sum with the
  decimal weights 0.35, 0.25, 0.25 and 0.15, and rounding to the nearest integer with a
  tie going up.
\<close>

definition exact_weighted_sum :: "rat \<Rightarrow> rat \<Rightarrow> rat \<Rightarrow> rat \<Rightarrow> rat" where
  "exact_weighted_sum a e m s =
     a * (35 / 100) + e * (25 / 100) + m * (25 / 100) + s * (15 / 100)"

definition round_half_up :: "rat \<Rightarrow> int" where
  "round_half_up x = \<lfloor>x + 1 / 2\<rfloor>"

text \<open>
  A chain of calls \<open>score.addBonus(b1).addBonus(b2)...\<close>: each call is made on the
  \<open>Score\<close> that the call before it returned, and an exception ends the chain.
\<close>

fun addBonuses :: "Score \<Rightarrow> Bonus list \<Rightarrow> exception + Score" where
  "addBonuses s [] = Inr s"
| "addBonuses s (b # bs) =
     (case addBonus s b of Inl e \<Rightarrow> Inl e | Inr s' \<Rightarrow> addBonuses s' bs)"

section \<open>Sequences of mutations\<close>

datatype operation = AddBlock LayerId CodeBlock | CreateConnection string string

fun apply_operation :: "LayerStructure \<Rightarrow> operation \<Rightarrow> LayerStructure" where
  "apply_operation s (AddBlock lid b) = snd (addBlock lid b s)"
| "apply_operation s (CreateConnection fromId toId) = snd (createConnection fromId toId s)"

definition run_from :: "LayerStructure \<Rightarrow> operation list \<Rightarrow> LayerStructure" where
  "run_from s ops = foldl apply_operation s ops"

definition run :: "operation list \<Rightarrow> LayerStructure" where
  "run ops = run_from create ops"

text \<open>A block identifier is a member of a layer's block set.\<close>

definition inLayer :: "LayerStructure \<Rightarrow> LayerId \<Rightarrow> string \<Rightarrow> bool" where
  "inLayer s l i = (case getLayer l s of None \<Rightarrow> False | Some layer \<Rightarrow> hasBlock layer i)"

text \<open>
  The sequences in which no successful \<open>addBlock\<close> gives an identifier that is already
  registered to another layer than the one it is registered in.
\<close>

fun keeps_layers :: "LayerStructure \<Rightarrow> operation list \<Rightarrow> bool" where
  "keeps_layers s [] = True"
| "keeps_layers s (AddBlock lid b # ops) =
     ((isFailure (fst (addBlock lid b s)) \<or> getBlockLayer s (block_id b) = None
         \<or> getBlockLayer s (block_id b) = Some lid)
      \<and> keeps_layers (snd (addBlock lid b s)) ops)"
| "keeps_layers s (CreateConnection fromId toId # ops) =
     keeps_layers (snd (createConnection fromId toId s)) ops"

text \<open>The invariant of the graph model (section 3 of the specification).\<close>

definition layers_agree :: "LayerStructure \<Rightarrow> bool" where
  "layers_agree s = (\<forall>l i. inLayer s l i = (getBlockLayer s i = Some l))"

definition endpoints_registered :: "LayerStructure \<Rightarrow> bool" where
  "endpoints_registered s =
     list_all (\<lambda>c. getBlock s (conn_from c) \<noteq> None \<and> getBlock s (conn_to c) \<noteq> None)
       (getConnections s)"

definition all_layers :: "LayerStructure \<Rightarrow> bool" where
  "all_layers s = (\<forall>l. layers s l \<noteq> None)"

section \<open>Concrete structures\<close>

text \<open>
  The blocks and structures of the repository's tests, on which the model is run: a view,
  a service and an entity, each added to its layer.
\<close>

definition userView :: CodeBlock where
  "userView = \<lparr>block_id = ''ui-component-UserView-1'', block_name = ''UserView'',
     block_type = UIComponent, properties = [], methods = []\<rparr>"

definition userService :: CodeBlock where
  "userService = \<lparr>block_id = ''service-UserService-1'', block_name = ''UserService'',
     block_type = Service, properties = [], methods = []\<rparr>"

definition userEntity :: CodeBlock where
  "userEntity = \<lparr>block_id = ''entity-User-1'', block_name = ''User'',
     block_type = Entity, properties = [], methods = []\<rparr>"

definition threeBlocks :: LayerStructure where
  "threeBlocks =
     snd (addBlock Domain userEntity
       (snd (addBlock Application userService
         (snd (addBlock Presentation userView create)))))"

text \<open>
  A structure that holds a connection from the Domain block to the Application block,
  stored without \<open>createConnection\<close> (which refuses it).
\<close>

definition illegalStored :: LayerStructure where
  "illegalStored = threeBlocks\<lparr>connections :=
     [\<lparr>conn_from = ''entity-User-1'', conn_to = ''service-UserService-1''\<rparr>]\<rparr>"

text \<open>The five rules of the validator's tests, in their order, and a violation.\<close>

definition testRules :: "ValidationRule list" where
  "testRules = [NoDependencyViolation, NoCyclicDependency, NoPresentationToInfra,
     NoUIInDTO, NoFatService]"

definition cyclicViolation :: Violation where
  "cyclicViolation = \<lparr>violation_type = ''CYCLIC_DEPENDENCY'',
     message = CyclicDependencyDetected ''a -> b -> a'',
     details = Some (CycleDetails [''a'', ''b'', ''a''])\<rparr>"

text \<open>
  A cycle of three services, a service that depends on itself, and the chain from the view
  to the entity.
\<close>

definition service1 :: CodeBlock where
  "service1 = \<lparr>block_id = ''s1'', block_name = ''Service1'',
     block_type = Service, properties = [], methods = []\<rparr>"

definition service2 :: CodeBlock where
  "service2 = \<lparr>block_id = ''s2'', block_name = ''Service2'',
     block_type = Service, properties = [], methods = []\<rparr>"

definition service3 :: CodeBlock where
  "service3 = \<lparr>block_id = ''s3'', block_name = ''Service3'',
     block_type = Service, properties = [], methods = []\<rparr>"

definition cycleOfThree :: LayerStructure where
  "cycleOfThree = run
     [AddBlock Application service1, AddBlock Application service2,
      AddBlock Application service3,
      CreateConnection ''s1'' ''s2'', CreateConnection ''s2'' ''s3'',
      CreateConnection ''s3'' ''s1'']"

definition selfReference :: LayerStructure where
  "selfReference = run [AddBlock Application service1, CreateConnection ''s1'' ''s1'']"

text \<open>
  A structure built by the public operations alone: two services in the Application
  layer, a connection between them, and the first service added once more, to the Domain
  layer. The stored connection then goes from a Domain block to an Application block.
\<close>

definition reRegistered :: LayerStructure where
  "reRegistered = run
     [AddBlock Application service1, AddBlock Application service2,
      CreateConnection ''s1'' ''s2'', AddBlock Domain service1]"

definition chain :: LayerStructure where
  "chain = run_from threeBlocks
     [CreateConnection ''ui-component-UserView-1'' ''service-UserService-1'',
      CreateConnection ''service-UserService-1'' ''entity-User-1'']"

section \<open>Connection legality\<close>

lemma validateDependency_first_failure:
  "validateDependency f t =
     (case first_failure direction_rules f t of Some e \<Rightarrow> Inl e | None \<Rightarrow> Inr ())"
  by (simp add: validateDependency_def direction_rules_def)

lemma first_failure_legal:
  "(first_failure direction_rules f t = None) = ((f, t) \<in> set legal_pairs)"
  by (cases f; cases t) (simp_all add: direction_rules_def legal_pairs_def)

text \<open>
  C1. \<open>createConnection\<close> fails with the not-found failure when an endpoint is not
  registered, before any direction rule is read; otherwise it returns the failure of the
  first of the five direction rules, in the order of the specification, whose condition
  the two layers meet, and leaves the structure as it was; when no rule applies it
  succeeds and appends the connection. The pairs no rule forbids are the eight of
  \<open>legal_pairs\<close>, among them every same-layer pair, so a block may connect to itself.
\<close>

theorem createConnection_rules:
  "createConnection fromId toId s =
     (case (map_of (blocks s) fromId, map_of (blocks s) toId) of
        (Some fb, Some tb) \<Rightarrow>
          (case first_failure direction_rules (layerId fb) (layerId tb) of
             Some e \<Rightarrow> (Inl e, s)
           | None \<Rightarrow>
               (Inr \<lparr>conn_from = fromId, conn_to = toId\<rparr>,
                s\<lparr>connections := connections s @ [\<lparr>conn_from = fromId, conn_to = toId\<rparr>]\<rparr>))
      | (Some fb, None) \<Rightarrow> (Inl BlockDoesNotExist, s)
      | (None, _) \<Rightarrow> (Inl BlockDoesNotExist, s))
   \<and> (first_failure direction_rules f t = None) = ((f, t) \<in> set legal_pairs)
   \<and> first_failure direction_rules f f = None"
proof -
  have self: "first_failure direction_rules f f = None"
    by (cases f) (simp_all add: direction_rules_def)
  have run: "createConnection fromId toId s =
     (case (map_of (blocks s) fromId, map_of (blocks s) toId) of
        (Some fb, Some tb) \<Rightarrow>
          (case first_failure direction_rules (layerId fb) (layerId tb) of
             Some e \<Rightarrow> (Inl e, s)
           | None \<Rightarrow>
               (Inr \<lparr>conn_from = fromId, conn_to = toId\<rparr>,
                s\<lparr>connections := connections s @ [\<lparr>conn_from = fromId, conn_to = toId\<rparr>]\<rparr>))
      | (Some fb, None) \<Rightarrow> (Inl BlockDoesNotExist, s)
      | (None, _) \<Rightarrow> (Inl BlockDoesNotExist, s))"
    by (simp add: createConnection_def validateDependency_first_failure Let_def
        split: option.splits)
  from run self first_failure_legal [of f t] show ?thesis
    by blast
qed

lemma threeBlocks_eq:
  "threeBlocks =
     \<lparr>layers = (\<lambda>l. Some \<lparr>layer_id = l, layer_blocks =
          (if l = Presentation then [''ui-component-UserView-1'']
           else if l = Application then [''service-UserService-1'']
           else if l = Domain then [''entity-User-1''] else [])\<rparr>),
      blocks = [(''ui-component-UserView-1'', \<lparr>block = userView, layerId = Presentation\<rparr>),
                (''service-UserService-1'', \<lparr>block = userService, layerId = Application\<rparr>),
                (''entity-User-1'', \<lparr>block = userEntity, layerId = Domain\<rparr>)],
      connections = []\<rparr>"
  by (auto simp add: threeBlocks_def addBlock_def create_def validateBlockPlacement_def
      isUIComponent_def isDomainModel_def isEntity_def isValueObject_def isInfrastructure_def
      Layer_addBlock_def userView_def userService_def userEntity_def fun_eq_iff)

theorem createConnection_rules_witness:
  "createConnection ''ui-component-UserView-1'' ''service-UserService-1'' threeBlocks =
     (Inr \<lparr>conn_from = ''ui-component-UserView-1'', conn_to = ''service-UserService-1''\<rparr>,
      threeBlocks\<lparr>connections :=
        [\<lparr>conn_from = ''ui-component-UserView-1'', conn_to = ''service-UserService-1''\<rparr>]\<rparr>)
   \<and> createConnection ''entity-User-1'' ''service-UserService-1'' threeBlocks =
     (Inl DomainDependsOnOtherLayer, threeBlocks)
   \<and> createConnection ''entity-User-1'' ''missing'' threeBlocks =
     (Inl BlockDoesNotExist, threeBlocks)"
  using createConnection_rules [of "''ui-component-UserView-1''" "''service-UserService-1''"
      threeBlocks Presentation Application]
    createConnection_rules [of "''entity-User-1''" "''service-UserService-1''"
      threeBlocks Domain Application]
    createConnection_rules [of "''entity-User-1''" "''missing''"
      threeBlocks Domain Application]
  by (simp add: threeBlocks_eq direction_rules_def)

section \<open>Block placement\<close>

lemma validateBlockPlacement_compatible:
  "(validateBlockPlacement lid b = Inr ()) = placement_compatible (block_type b) lid"
  by (cases "block_type b"; cases lid)
    (simp_all add: validateBlockPlacement_def placement_compatible_def isUIComponent_def
      isDomainModel_def isEntity_def isValueObject_def isInfrastructure_def)

lemma addBlock_success:
  assumes "layers s lid = Some layer" and "placement_compatible (block_type b) lid"
  shows "addBlock lid b s =
     (Inr (),
      s\<lparr>layers := (layers s)(lid \<mapsto> Layer_addBlock (block_id b) layer),
        blocks := AList.update (block_id b) \<lparr>block = b, layerId = lid\<rparr> (blocks s)\<rparr>)"
  using assms validateBlockPlacement_compatible [of lid b]
  by (simp add: addBlock_def)

lemma addBlock_failure:
  assumes "\<not> placement_compatible (block_type b) lid"
  shows "\<exists>e. addBlock lid b s = (Inl e, s)"
proof -
  from assms have "validateBlockPlacement lid b \<noteq> Inr ()"
    by (simp add: validateBlockPlacement_compatible)
  then obtain e where "validateBlockPlacement lid b = Inl e"
    by (cases "validateBlockPlacement lid b") auto
  then show ?thesis
    by (simp add: addBlock_def)
qed

lemma hasBlock_Layer_addBlock: "hasBlock (Layer_addBlock i l) i"
  by (simp add: hasBlock_def Layer_addBlock_def)

text \<open>
  C6. On a structure that has the target layer (\<open>create\<close> makes all four and no
  operation removes one, see \<open>all_layers_run\<close> below), \<open>addBlock\<close> succeeds exactly
  when the block's type is compatible with the layer in the placement table: UIComponent
  only in Presentation; Entity, ValueObject and DomainService only in Domain;
  RepositoryImpl only in Infrastructure; every other type in every layer. After a success
  the layer's block set holds the block's identifier and the block map sends the
  identifier to the block and the layer.
\<close>

theorem addBlock_placement:
  assumes "layers s lid = Some layer"
  shows "isSuccess (fst (addBlock lid b s)) = placement_compatible (block_type b) lid
    \<and> (isSuccess (fst (addBlock lid b s)) \<longrightarrow>
         (\<exists>layer'. getLayer lid (snd (addBlock lid b s)) = Some layer'
            \<and> hasBlock layer' (block_id b))
         \<and> map_of (blocks (snd (addBlock lid b s))) (block_id b)
             = Some \<lparr>block = b, layerId = lid\<rparr>)"
proof (cases "placement_compatible (block_type b) lid")
  case True
  show ?thesis
    by (simp add: addBlock_success [OF assms True] True isSuccess_def getLayer_def
        hasBlock_Layer_addBlock update_conv')
next
  case False
  from addBlock_failure [OF False] obtain e where "addBlock lid b s = (Inl e, s)" ..
  with False show ?thesis
    by (simp add: isSuccess_def)
qed

theorem addBlock_placement_witness:
  "isSuccess (fst (addBlock Presentation userView create))
   \<and> \<not> isSuccess (fst (addBlock Domain userView create))
   \<and> map_of (blocks (snd (addBlock Presentation userView create))) (block_id userView)
       = Some \<lparr>block = userView, layerId = Presentation\<rparr>"
  using addBlock_placement [of create Presentation
      "\<lparr>layer_id = Presentation, layer_blocks = []\<rparr>" userView]
    addBlock_placement [of create Domain "\<lparr>layer_id = Domain, layer_blocks = []\<rparr>" userView]
  by (simp add: create_def placement_compatible_def userView_def)

section \<open>Failed mutations\<close>

text \<open>
  C7. A failing mutation is all-or-nothing: when \<open>addBlock\<close> fails (a placement failure,
  or the missing-layer failure) or \<open>createConnection\<close> fails (not-found or a direction
  failure), the structure after the call is the structure before it, so no block is
  registered, no layer's block set changes and no connection is appended.
\<close>

theorem failed_mutation_leaves_structure:
  "(isFailure (fst (addBlock lid b s)) \<longrightarrow> snd (addBlock lid b s) = s)
   \<and> (isFailure (fst (createConnection fromId toId s))
        \<longrightarrow> snd (createConnection fromId toId s) = s)"
  by (simp add: isFailure_def isSuccess_def addBlock_def createConnection_def Let_def
      split: sum.splits option.splits)

theorem failed_mutation_leaves_structure_witness:
  "isFailure (fst (addBlock Domain userView threeBlocks))
   \<and> snd (addBlock Domain userView threeBlocks) = threeBlocks
   \<and> isFailure (fst (createConnection ''entity-User-1'' ''service-UserService-1'' threeBlocks))
   \<and> snd (createConnection ''entity-User-1'' ''service-UserService-1'' threeBlocks)
       = threeBlocks"
proof -
  have a: "isFailure (fst (addBlock Domain userView threeBlocks))"
    by (simp add: isFailure_def isSuccess_def addBlock_def validateBlockPlacement_def
        isUIComponent_def userView_def)
  have c: "isFailure (fst (createConnection ''entity-User-1'' ''service-UserService-1''
      threeBlocks))"
    by (simp add: isFailure_def isSuccess_def createConnection_def validateDependency_def
        threeBlocks_eq)
  from a c failed_mutation_leaves_structure [of Domain userView threeBlocks
      "''entity-User-1''" "''service-UserService-1''"]
  show ?thesis by simp
qed

section \<open>The violation-penalty score\<close>

lemma calculateScore_loop_sum:
  "calculateScore_loop running vs
     = running - sum_list (map (\<lambda>v. violation_penalty (violation_type v)) vs)"
  by (induction vs arbitrary: running) (simp_all add: violation_penalty_def)

text \<open>
  C2. The violation-penalty score is 100 minus the sum of the per-type penalties
  (CYCLIC_DEPENDENCY 30, DEPENDENCY_VIOLATION 20, DTO_PURITY_VIOLATION 15,
  PRESENTATION_TO_INFRA 15, FAT_SERVICE 10, any other type 5), clamped to [0,100] once,
  after the loop: the running total of the loop is the unclamped difference, which may be
  negative. One CYCLIC_DEPENDENCY violation alone gives 70.
\<close>

theorem calculateScore_penalties:
  "calculateScore vs
     = max 0 (min 100 (100 - sum_list (map (\<lambda>v. violation_penalty (violation_type v)) vs)))
   \<and> calculateScore_loop 100 vs
     = 100 - sum_list (map (\<lambda>v. violation_penalty (violation_type v)) vs)
   \<and> map violation_penalty
       [''CYCLIC_DEPENDENCY'', ''DEPENDENCY_VIOLATION'', ''DTO_PURITY_VIOLATION'',
        ''PRESENTATION_TO_INFRA'', ''FAT_SERVICE''] = [30, 20, 15, 15, 10]
   \<and> (if t \<in> set [''CYCLIC_DEPENDENCY'', ''DEPENDENCY_VIOLATION'', ''DTO_PURITY_VIOLATION'',
        ''PRESENTATION_TO_INFRA'', ''FAT_SERVICE''] then True else violation_penalty t = 5)
   \<and> calculateScore [v\<lparr>violation_type := ''CYCLIC_DEPENDENCY''\<rparr>] = 70"
proof -
  have "calculateScore [v\<lparr>violation_type := ''CYCLIC_DEPENDENCY''\<rparr>] = 70"
    by (simp add: calculateScore_def)
  moreover have "map violation_penalty
       [''CYCLIC_DEPENDENCY'', ''DEPENDENCY_VIOLATION'', ''DTO_PURITY_VIOLATION'',
        ''PRESENTATION_TO_INFRA'', ''FAT_SERVICE''] = [30, 20, 15, 15, 10]"
    by (simp add: violation_penalty_def)
  moreover have "if t \<in> set [''CYCLIC_DEPENDENCY'', ''DEPENDENCY_VIOLATION'',
        ''DTO_PURITY_VIOLATION'', ''PRESENTATION_TO_INFRA'', ''FAT_SERVICE'']
      then True else violation_penalty t = 5"
    by (simp add: violation_penalty_def)
  ultimately show ?thesis
    by (simp only: calculateScore_def calculateScore_loop_sum simp_thms)
qed

theorem calculateScore_penalties_witness:
  "calculateScore [cyclicViolation] = 70
   \<and> calculateScore_loop 100
        [cyclicViolation, cyclicViolation, cyclicViolation, cyclicViolation] = - 20
   \<and> calculateScore [cyclicViolation, cyclicViolation, cyclicViolation, cyclicViolation] = 0
   \<and> violation_penalty ''SOMETHING_ELSE'' = 5"
  using calculateScore_penalties [of "[cyclicViolation]" "''SOMETHING_ELSE''" cyclicViolation]
    calculateScore_penalties [of
      "[cyclicViolation, cyclicViolation, cyclicViolation, cyclicViolation]"
      "''SOMETHING_ELSE''" cyclicViolation]
  by (simp add: cyclicViolation_def violation_penalty_def)

section \<open>The dependency-direction rule\<close>

lemma validate_rules_concat:
  "validate_rules dac cfgs rules s acc =
     acc @ concat (map (\<lambda>r. if enabled (cfgs r) then validateRule dac cfgs r s else []) rules)"
  by (induction rules arbitrary: acc) simp_all

lemma validateRule_NoDependencyViolation:
  "validateRule dac cfgs NoDependencyViolation s = []"
  by (simp add: validateRule_def validateDependencyDirection_def)

lemma validate_rules_removeAll:
  "validate_rules dac cfgs rules s acc
     = validate_rules dac cfgs (removeAll NoDependencyViolation rules) s acc"
  unfolding validate_rules_concat
  by (induction rules) (simp_all add: validateRule_NoDependencyViolation)

lemma validateRule_types:
  "list_all (\<lambda>v. violation_type v \<noteq> ''DEPENDENCY_VIOLATION'') (validateRule dac cfgs r s)"
proof (cases r)
  case NoFatService
  then show ?thesis
    by (auto simp add: validateRule_def validateNoFatService_def Let_def list_all_iff)
qed (auto simp add: validateRule_def validateDependencyDirection_def
    validateNoCyclicDependency_def validateNoPresentationToInfra_def validateDTOPurity_def
    list_all_iff)

lemma validate_rules_types:
  "list_all (\<lambda>v. violation_type v \<noteq> ''DEPENDENCY_VIOLATION'')
     (validate_rules dac cfgs rules s [])"
  unfolding validate_rules_concat
  using validateRule_types [of dac cfgs _ s]
  by (induction rules) simp_all

lemma validate_without_dependency_rule:
  "ArchitectureValidator_validate dac rules cfgs s
     = ArchitectureValidator_validate dac (removeAll NoDependencyViolation rules) cfgs s"
  using validate_rules_removeAll [of dac cfgs rules s "[]"]
  by (simp add: ArchitectureValidator_validate_def)

lemma validate_reports_no_dependency_violation:
  "list_all (\<lambda>v. violation_type v \<noteq> ''DEPENDENCY_VIOLATION'')
     (violations (ArchitectureValidator_validate dac rules cfgs s))"
  using validate_rules_types [of dac cfgs rules s]
  by (simp add: ArchitectureValidator_validate_def Let_def)

lemma reRegistered_fields:
  "getConnections reRegistered = [\<lparr>conn_from = ''s1'', conn_to = ''s2''\<rparr>]"
  "getBlockLayer reRegistered ''s1'' = Some Domain"
  "getBlockLayer reRegistered ''s2'' = Some Application"
  "getAllBlocks reRegistered = [\<lparr>block = service1, layerId = Domain\<rparr>,
     \<lparr>block = service2, layerId = Application\<rparr>]"
  by (simp_all add: reRegistered_def run_def run_from_def addBlock_def create_def
      validateBlockPlacement_def createConnection_def validateDependency_def
      isUIComponent_def isDomainModel_def isEntity_def isValueObject_def isInfrastructure_def
      Layer_addBlock_def service1_def service2_def getLayer_def hasBlock_def Let_def
      getBlockLayer_def getConnections_def getAllBlocks_def)

lemma reRegistered_steps:
  "fst (addBlock Application service1 create) = Inr ()"
  "fst (addBlock Application service2 (run [AddBlock Application service1])) = Inr ()"
  "fst (createConnection ''s1'' ''s2''
     (run [AddBlock Application service1, AddBlock Application service2]))
       = Inr \<lparr>conn_from = ''s1'', conn_to = ''s2''\<rparr>"
  "fst (addBlock Domain service1
     (run [AddBlock Application service1, AddBlock Application service2,
        CreateConnection ''s1'' ''s2''])) = Inr ()"
  by (simp_all add: run_def run_from_def addBlock_def create_def
      validateBlockPlacement_def createConnection_def validateDependency_def
      isUIComponent_def isDomainModel_def isEntity_def isValueObject_def isInfrastructure_def
      Layer_addBlock_def service1_def service2_def getLayer_def hasBlock_def Let_def)

lemma validate_illegalStored:
  "ArchitectureValidator_validate (\<lambda>s. []) testRules DEFAULT_RULE_CONFIGS illegalStored
       = \<lparr>isValid = True, violations = [], score = Some 100\<rparr>"
proof -
  have "validate_rules (\<lambda>s. []) DEFAULT_RULE_CONFIGS testRules illegalStored [] = []"
    by (simp add: testRules_def DEFAULT_RULE_CONFIGS_def validateRule_def
        validateDependencyDirection_def validateNoCyclicDependency_def
        validateNoPresentationToInfra_def validateDTOPurity_def validateNoFatService_def
        getConnections_def getBlockLayer_def getAllBlocks_def illegalStored_def threeBlocks_eq
        userView_def userService_def userEntity_def param_or_def)
  then show ?thesis
    by (simp add: ArchitectureValidator_validate_def calculateScore_def)
qed

lemma validate_reRegistered:
  "ArchitectureValidator_validate (\<lambda>s. []) testRules DEFAULT_RULE_CONFIGS reRegistered
       = \<lparr>isValid = True, violations = [], score = Some 100\<rparr>"
proof -
  have "validate_rules (\<lambda>s. []) DEFAULT_RULE_CONFIGS testRules reRegistered [] = []"
    by (simp add: testRules_def DEFAULT_RULE_CONFIGS_def validateRule_def
        validateDependencyDirection_def validateNoCyclicDependency_def
        validateNoPresentationToInfra_def validateDTOPurity_def validateNoFatService_def
        reRegistered_fields service1_def service2_def param_or_def)
  then show ?thesis
    by (simp add: ArchitectureValidator_validate_def calculateScore_def)
qed

text \<open>
  C5. With the dependency-direction rule enabled, the validator should report a
  violation for every stored connection whose pair of layers is illegal, as the comment
  at the head of \<open>validateDependencyDirection\<close> announces. The code does not:
  \<open>validateDependencyDirection\<close> returns the empty list without reading the structure.
  Two structures show it, under the five rules of the tests and the default
  configuration. The first holds a connection from the Domain entity to the Application
  service, stored without \<open>createConnection\<close>. The second is built by four successful
  calls of \<open>addBlock\<close> and \<open>createConnection\<close>: the connection is legal when it is made
  and goes from Domain to Application once its source is added to the Domain layer.
  \<open>validateDependency\<close> refuses the pair, and for both structures the validator answers
  valid, with no violation and the score 100.
\<close>

theorem dependency_direction_not_rechecked:
  "enabled (DEFAULT_RULE_CONFIGS NoDependencyViolation)
   \<and> NoDependencyViolation \<in> set testRules
   \<and> getConnections illegalStored
       = [\<lparr>conn_from = ''entity-User-1'', conn_to = ''service-UserService-1''\<rparr>]
   \<and> getBlockLayer illegalStored ''entity-User-1'' = Some Domain
   \<and> getBlockLayer illegalStored ''service-UserService-1'' = Some Application
   \<and> validateDependency Domain Application = Inl DomainDependsOnOtherLayer
   \<and> validateDependencyDirection illegalStored = []
   \<and> ArchitectureValidator_validate (\<lambda>s. []) testRules DEFAULT_RULE_CONFIGS illegalStored
       = \<lparr>isValid = True, violations = [], score = Some 100\<rparr>
   \<and> fst (addBlock Application service1 create) = Inr ()
   \<and> fst (addBlock Application service2 (run [AddBlock Application service1])) = Inr ()
   \<and> fst (createConnection ''s1'' ''s2''
        (run [AddBlock Application service1, AddBlock Application service2]))
       = Inr \<lparr>conn_from = ''s1'', conn_to = ''s2''\<rparr>
   \<and> fst (addBlock Domain service1
        (run [AddBlock Application service1, AddBlock Application service2,
           CreateConnection ''s1'' ''s2''])) = Inr ()
   \<and> getConnections reRegistered = [\<lparr>conn_from = ''s1'', conn_to = ''s2''\<rparr>]
   \<and> getBlockLayer reRegistered ''s1'' = Some Domain
   \<and> getBlockLayer reRegistered ''s2'' = Some Application
   \<and> validateDependencyDirection reRegistered = []
   \<and> ArchitectureValidator_validate (\<lambda>s. []) testRules DEFAULT_RULE_CONFIGS reRegistered
       = \<lparr>isValid = True, violations = [], score = Some 100\<rparr>"
proof -
  have a: "enabled (DEFAULT_RULE_CONFIGS NoDependencyViolation)"
    "NoDependencyViolation \<in> set testRules"
    by (simp_all add: DEFAULT_RULE_CONFIGS_def testRules_def)
  have b: "getConnections illegalStored
       = [\<lparr>conn_from = ''entity-User-1'', conn_to = ''service-UserService-1''\<rparr>]"
    "getBlockLayer illegalStored ''entity-User-1'' = Some Domain"
    "getBlockLayer illegalStored ''service-UserService-1'' = Some Application"
    "validateDependency Domain Application = Inl DomainDependsOnOtherLayer"
    by (simp_all add: getConnections_def getBlockLayer_def illegalStored_def threeBlocks_eq
        validateDependency_def)
  have c: "validateDependencyDirection illegalStored = []"
    "validateDependencyDirection reRegistered = []"
    by (simp_all add: validateDependencyDirection_def)
  from a b c(1) validate_illegalStored reRegistered_steps reRegistered_fields(1,2,3) c(2)
    validate_reRegistered
  show ?thesis by (intro conjI)
qed

section \<open>One layer for each block\<close>

lemma all_layers_create: "all_layers create"
  by (simp add: all_layers_def create_def)

lemma all_layers_apply: "all_layers s \<Longrightarrow> all_layers (apply_operation s x)"
  by (cases x)
    (auto simp add: all_layers_def addBlock_def createConnection_def Let_def
      split: sum.splits option.splits)

lemma all_layers_run: "all_layers (run ops)"
proof -
  have "all_layers s \<Longrightarrow> all_layers (run_from s ops)" for s
    by (induction ops arbitrary: s) (simp_all add: run_from_def all_layers_apply)
  then show ?thesis
    by (simp add: run_def all_layers_create)
qed

lemma endpoints_registered_apply:
  "endpoints_registered s \<Longrightarrow> endpoints_registered (apply_operation s x)"
proof (cases x)
  case (AddBlock lid b)
  assume "endpoints_registered s"
  then show ?thesis
    by (auto simp add: AddBlock endpoints_registered_def addBlock_def getBlock_def
        getConnections_def update_conv' list_all_iff split: sum.splits option.splits)
next
  case (CreateConnection f t)
  assume "endpoints_registered s"
  then show ?thesis
    by (auto simp add: CreateConnection endpoints_registered_def createConnection_def
        getBlock_def getConnections_def Let_def list_all_iff split: sum.splits option.splits)
qed

lemma createConnection_layers_blocks:
  "layers (snd (createConnection f t s)) = layers s
   \<and> blocks (snd (createConnection f t s)) = blocks s"
  by (simp add: createConnection_def Let_def split: sum.splits option.splits)

lemma layers_agree_addBlock:
  assumes agree: "layers_agree s"
    and keep: "isFailure (fst (addBlock lid b s)) \<or> getBlockLayer s (block_id b) = None
         \<or> getBlockLayer s (block_id b) = Some lid"
  shows "layers_agree (snd (addBlock lid b s))"
proof (cases "isFailure (fst (addBlock lid b s))")
  case True
  then have "snd (addBlock lid b s) = s"
    by (simp add: isFailure_def isSuccess_def addBlock_def split: sum.splits option.splits)
  with agree show ?thesis by simp
next
  case False
  then obtain layer where layer: "layers s lid = Some layer"
    and compat: "validateBlockPlacement lid b = Inr ()"
    by (auto simp add: isFailure_def isSuccess_def addBlock_def
        split: sum.splits option.splits)
  from False keep have old: "getBlockLayer s (block_id b) = None
      \<or> getBlockLayer s (block_id b) = Some lid"
    by simp
  have after: "snd (addBlock lid b s) =
      s\<lparr>layers := (layers s)(lid \<mapsto> Layer_addBlock (block_id b) layer),
        blocks := AList.update (block_id b) \<lparr>block = b, layerId = lid\<rparr> (blocks s)\<rparr>"
    by (simp add: addBlock_def layer compat)
  show ?thesis
    unfolding layers_agree_def
  proof (intro allI)
    fix l i
    from agree have a: "inLayer s l i = (getBlockLayer s i = Some l)"
      by (simp add: layers_agree_def)
    from agree have a': "inLayer s lid i = (getBlockLayer s i = Some lid)"
      by (simp add: layers_agree_def)
    show "inLayer (snd (addBlock lid b s)) l i
        = (getBlockLayer (snd (addBlock lid b s)) i = Some l)"
    proof (cases "i = block_id b")
      case True
      with old a a' layer show ?thesis
        by (auto simp add: after inLayer_def getLayer_def getBlockLayer_def hasBlock_def
            Layer_addBlock_def update_conv' split: option.splits)
    next
      case False
      with a a' layer show ?thesis
        by (auto simp add: after inLayer_def getLayer_def getBlockLayer_def hasBlock_def
            Layer_addBlock_def update_conv' split: option.splits)
    qed
  qed
qed

lemma layers_agree_createConnection:
  "layers_agree s \<Longrightarrow> layers_agree (snd (createConnection f t s))"
  by (simp add: layers_agree_def inLayer_def getLayer_def getBlockLayer_def
      createConnection_layers_blocks)

lemma layers_agree_create: "layers_agree create"
  by (simp add: layers_agree_def inLayer_def getLayer_def getBlockLayer_def hasBlock_def
      create_def)

lemma layers_agree_run_from:
  "layers_agree s \<Longrightarrow> keeps_layers s ops \<Longrightarrow> layers_agree (run_from s ops)"
proof (induction ops arbitrary: s)
  case Nil
  then show ?case by (simp add: run_from_def)
next
  case (Cons x ops)
  show ?case
  proof (cases x)
    case (AddBlock lid b)
    with Cons.prems have "layers_agree (snd (addBlock lid b s))"
      by (auto intro: layers_agree_addBlock)
    with Cons.IH [of "snd (addBlock lid b s)"] Cons.prems AddBlock show ?thesis
      by (simp add: run_from_def)
  next
    case (CreateConnection f t)
    with Cons.IH [of "snd (createConnection f t s)"] Cons.prems show ?thesis
      by (simp add: run_from_def layers_agree_createConnection)
  qed
qed

lemma endpoints_registered_run_from:
  "endpoints_registered s \<Longrightarrow> endpoints_registered (run_from s ops)"
  by (induction ops arbitrary: s) (simp_all add: run_from_def endpoints_registered_apply)

lemma getBlockLayer_addBlock_kept:
  assumes "getBlockLayer s i = Some l"
    and "isFailure (fst (addBlock lid b s)) \<or> getBlockLayer s (block_id b) = None
         \<or> getBlockLayer s (block_id b) = Some lid"
  shows "getBlockLayer (snd (addBlock lid b s)) i = Some l"
  using assms
  by (auto simp add: addBlock_def getBlockLayer_def update_conv' isFailure_def isSuccess_def
      split: sum.splits option.splits)

lemma getBlockLayer_run_from_kept:
  "getBlockLayer s i = Some l \<Longrightarrow> keeps_layers s ops
    \<Longrightarrow> getBlockLayer (run_from s ops) i = Some l"
proof (induction ops arbitrary: s)
  case Nil
  then show ?case by (simp add: run_from_def)
next
  case (Cons x ops)
  show ?case
  proof (cases x)
    case (AddBlock lid b)
    with Cons.prems have "getBlockLayer (snd (addBlock lid b s)) i = Some l"
      by (auto intro: getBlockLayer_addBlock_kept)
    with Cons.IH [of "snd (addBlock lid b s)"] Cons.prems AddBlock show ?thesis
      by (simp add: run_from_def)
  next
    case (CreateConnection f t)
    with Cons.IH [of "snd (createConnection f t s)"] Cons.prems show ?thesis
      by (simp add: run_from_def getBlockLayer_def createConnection_layers_blocks)
  qed
qed

lemma keeps_layers_append:
  "keeps_layers s (ops @ later)
     = (keeps_layers s ops \<and> keeps_layers (run_from s ops) later)"
proof (induction ops arbitrary: s)
  case Nil
  then show ?case by (simp add: run_from_def)
next
  case (Cons x ops)
  then show ?case by (cases x) (simp_all add: run_from_def)
qed

lemma run_from_append: "run_from s (ops @ later) = run_from (run_from s ops) later"
  by (simp add: run_from_def)

text \<open>
  C9, as stated, fails: adding the same Service block to the Application layer and then to
  the Domain layer (both placements are legal) leaves its identifier in the block sets of
  both layers, and the block map moves it from Application to Domain.
\<close>

theorem block_in_two_layers_counterexample:
  "fst (addBlock Application userService create) = Inr ()
   \<and> fst (addBlock Domain userService (run [AddBlock Application userService])) = Inr ()
   \<and> inLayer (run [AddBlock Application userService, AddBlock Domain userService])
       Application (block_id userService)
   \<and> inLayer (run [AddBlock Application userService, AddBlock Domain userService])
       Domain (block_id userService)
   \<and> getBlockLayer (run [AddBlock Application userService]) (block_id userService)
       = Some Application
   \<and> getBlockLayer (run [AddBlock Application userService, AddBlock Domain userService])
       (block_id userService) = Some Domain"
  by (simp add: run_def run_from_def addBlock_def create_def validateBlockPlacement_def
      isUIComponent_def isDomainModel_def isEntity_def isValueObject_def isInfrastructure_def
      Layer_addBlock_def userService_def inLayer_def getLayer_def hasBlock_def
      getBlockLayer_def)

text \<open>
  C9, amended. For every sequence of \<open>addBlock\<close> and \<open>createConnection\<close> calls on a
  fresh structure in which no successful \<open>addBlock\<close> gives an identifier already
  registered to a layer other than the one it is registered in: a block identifier is a
  member of a layer's block set exactly when the block map assigns it that layer, so it is
  in one layer's set and in no other; every endpoint of a stored connection is in the block
  map; and an identifier registered after a prefix of the sequence has the same layer after
  the whole sequence.
\<close>

theorem one_layer_per_block:
  assumes "keeps_layers create (ops @ later)"
  shows "(\<forall>l i. inLayer (run (ops @ later)) l i = (getBlockLayer (run (ops @ later)) i = Some l))
    \<and> (\<forall>l l' i. inLayer (run (ops @ later)) l i \<and> inLayer (run (ops @ later)) l' i
          \<longrightarrow> l = l')
    \<and> endpoints_registered (run (ops @ later))
    \<and> (\<forall>l i. getBlockLayer (run ops) i = Some l
          \<longrightarrow> getBlockLayer (run (ops @ later)) i = Some l)"
proof -
  from assms have k1: "keeps_layers create ops"
    and k2: "keeps_layers (run_from create ops) later"
    by (simp_all add: keeps_layers_append)
  have agree: "layers_agree (run (ops @ later))"
    unfolding run_def
    using layers_agree_run_from [OF layers_agree_create assms] .
  then have one: "\<forall>l i. inLayer (run (ops @ later)) l i
      = (getBlockLayer (run (ops @ later)) i = Some l)"
    by (simp add: layers_agree_def)
  then have unique: "\<forall>l l' i. inLayer (run (ops @ later)) l i \<and> inLayer (run (ops @ later)) l' i
      \<longrightarrow> l = l'"
    by auto
  have "endpoints_registered create"
    by (simp add: endpoints_registered_def getConnections_def create_def)
  then have reg: "endpoints_registered (run (ops @ later))"
    unfolding run_def by (rule endpoints_registered_run_from)
  have kept: "\<forall>l i. getBlockLayer (run ops) i = Some l
      \<longrightarrow> getBlockLayer (run (ops @ later)) i = Some l"
    using getBlockLayer_run_from_kept [OF _ k2]
    by (simp add: run_def run_from_append)
  from one unique reg kept show ?thesis by blast
qed

theorem one_layer_per_block_witness:
  "keeps_layers create
     ([AddBlock Presentation userView, AddBlock Application userService]
      @ [AddBlock Application userService,
         CreateConnection (block_id userView) (block_id userService)])
   \<and> inLayer (run ([AddBlock Presentation userView, AddBlock Application userService]
      @ [AddBlock Application userService,
         CreateConnection (block_id userView) (block_id userService)]))
       Application (block_id userService)
   \<and> \<not> inLayer (run ([AddBlock Presentation userView, AddBlock Application userService]
      @ [AddBlock Application userService,
         CreateConnection (block_id userView) (block_id userService)]))
       Presentation (block_id userService)
   \<and> endpoints_registered
       (run ([AddBlock Presentation userView, AddBlock Application userService]
      @ [AddBlock Application userService,
         CreateConnection (block_id userView) (block_id userService)]))"
proof -
  have k: "keeps_layers create
     ([AddBlock Presentation userView, AddBlock Application userService]
      @ [AddBlock Application userService,
         CreateConnection (block_id userView) (block_id userService)])"
    by (simp add: addBlock_def create_def validateBlockPlacement_def
      isUIComponent_def isDomainModel_def isEntity_def isValueObject_def isInfrastructure_def
      Layer_addBlock_def userService_def userView_def getBlockLayer_def isFailure_def
      isSuccess_def)
  have g: "getBlockLayer (run ([AddBlock Presentation userView, AddBlock Application userService]
      @ [AddBlock Application userService,
         CreateConnection (block_id userView) (block_id userService)]))
       (block_id userService) = Some Application"
    by (simp add: run_def run_from_def addBlock_def create_def validateBlockPlacement_def
      isUIComponent_def isDomainModel_def isEntity_def isValueObject_def isInfrastructure_def
      Layer_addBlock_def userService_def userView_def getBlockLayer_def
      createConnection_def validateDependency_def Let_def)
  from one_layer_per_block [OF k] g k show ?thesis
    by simp
qed

section \<open>The depth-first search\<close>

lemma indexOf_from_takeWhile:
  "x \<in> set xs \<Longrightarrow> indexOf_from xs x i = i + int (length (takeWhile (\<lambda>y. y \<noteq> x) xs))"
  by (induction xs arbitrary: i) auto

lemma slice_indexOf:
  assumes "x \<in> set xs"
  shows "slice xs (indexOf xs x) = dropWhile (\<lambda>y. y \<noteq> x) xs"
proof -
  have "length (takeWhile (\<lambda>y. y \<noteq> x) xs) \<le> length xs"
    by (rule length_takeWhile_le)
  then show ?thesis
    by (simp add: slice_def indexOf_def indexOf_from_takeWhile [OF assms] dropWhile_eq_drop
        min_def)
qed

lemma dfs_pre_enter:
  assumes "dfs_pre adj node ns st" and "neighbor \<in> set ns" and "neighbor \<notin> visited st"
  shows "dfs_pre adj neighbor (neighbors_of adj neighbor) (enter neighbor st)"
  using assms
  by (auto simp add: dfs_pre_def enter_def successively_append_iff edges_of_def)

lemma dfs_pre_after_child:
  assumes pre: "dfs_pre adj node (neighbor # rest) st" and nv: "neighbor \<notin> visited st"
    and post: "dfs_post adj neighbor (enter neighbor st) None st'"
  shows "dfs_pre adj node rest st'"
proof -
  from pre nv have "neighbor \<notin> set (path st)"
    by (auto simp add: dfs_pre_def)
  with pre post show ?thesis
    by (auto simp add: dfs_pre_def dfs_post_def enter_def)
qed

lemma dfs_neighbors_correct:
  assumes fin: "finite U" and closed: "\<forall>a. set (neighbors_of adj a) \<subseteq> U"
  shows "card (U - visited st) \<le> n \<Longrightarrow> dfs_pre adj node ns st
    \<Longrightarrow> \<exists>r st'. dfs_neighbors adj node ns st = Some (r, st') \<and> dfs_post adj node st r st'"
proof (induction n arbitrary: node ns st rule: less_induct)
  case (less n)
  note outer = less.IH
  from less.prems show ?case
  proof (induction ns arbitrary: st)
    case Nil
    show ?case
      by (subst dfs_neighbors.simps) (simp add: dfs_post_def leave_def)
  next
    case (Cons neighbor rest)
    note pre = Cons.prems(2)
    note bound = Cons.prems(1)
    from pre have pre_rest: "dfs_pre adj node rest st"
      by (simp add: dfs_pre_def)
    show ?case
    proof (cases "neighbor \<in> visited st")
      case False
      from pre closed have inU: "neighbor \<in> U"
        by (auto simp add: dfs_pre_def)
      have "U - visited (enter neighbor st) = (U - visited st) - {neighbor}"
        by (auto simp add: enter_def)
      moreover from inU False have "neighbor \<in> U - visited st" by simp
      moreover from fin have "finite (U - visited st)" by simp
      ultimately have "card (U - visited (enter neighbor st)) < card (U - visited st)"
        by (simp only: card_Diff1_less)
      with bound have small: "card (U - visited (enter neighbor st)) \<le> n - 1" and "n - 1 < n"
        by simp_all
      from outer [OF \<open>n - 1 < n\<close> small dfs_pre_enter [OF pre _ False]]
      obtain r st' where
        child: "dfs_neighbors adj neighbor (neighbors_of adj neighbor) (enter neighbor st)
          = Some (r, st')"
        and post: "dfs_post adj neighbor (enter neighbor st) r st'"
        by auto
      show ?thesis
      proof (cases r)
        case None
        from post None have grow: "visited st \<subseteq> visited st'"
          by (auto simp add: dfs_post_def enter_def)
        then have "U - visited st' \<subseteq> U - visited st" by auto
        with fin have "card (U - visited st') \<le> card (U - visited st)"
          by (intro card_mono) auto
        with bound have b': "card (U - visited st') \<le> n" by simp
        from post None have post': "dfs_post adj neighbor (enter neighbor st) None st'"
          by simp
        have pre': "dfs_pre adj node rest st'"
          by (rule dfs_pre_after_child [OF pre False post'])
        from Cons.IH [OF b' pre'] obtain r2 st2 where
          rest: "dfs_neighbors adj node rest st' = Some (r2, st2)"
          and post2: "dfs_post adj node st' r2 st2"
          by auto
        from pre False have notin: "neighbor \<notin> set (path st)"
          by (auto simp add: dfs_pre_def)
        from post' pre notin have same: "path st' = path st"
          "recursionStack st' = recursionStack st"
          by (auto simp add: dfs_post_def enter_def dfs_pre_def)
        from post2 grow same have "dfs_post adj node st r2 st2"
          by (auto simp add: dfs_post_def split: option.splits)
        moreover have "dfs_neighbors adj node (neighbor # rest) st = Some (r2, st2)"
          by (subst dfs_neighbors.simps) (simp add: False child None rest)
        ultimately show ?thesis by blast
      next
        case (Some cycle)
        from post Some have "dfs_post adj node st (Some cycle) st'"
          by (auto simp add: dfs_post_def enter_def dest: append_prefixD)
        moreover have "dfs_neighbors adj node (neighbor # rest) st = Some (Some cycle, st')"
          by (subst dfs_neighbors.simps) (simp add: False child Some)
        ultimately show ?thesis by blast
      qed
    next
      case True
      show ?thesis
      proof (cases "neighbor \<in> recursionStack st")
        case onstack: True
        with pre have inpath: "neighbor \<in> set (path st)"
          by (simp add: dfs_pre_def)
        have run: "dfs_neighbors adj node (neighbor # rest) st
            = Some (Some (dropWhile (\<lambda>x. x \<noteq> neighbor) (path st) @ [neighbor]), st)"
          by (subst dfs_neighbors.simps) (simp add: True onstack slice_indexOf [OF inpath])
        from pre inpath have
          "reported adj (path st) (dropWhile (\<lambda>x. x \<noteq> neighbor) (path st) @ [neighbor])"
          unfolding reported_def dfs_pre_def
          by (intro exI [of _ neighbor]) (auto simp add: edges_of_def)
        then have "dfs_post adj node st
            (Some (dropWhile (\<lambda>x. x \<noteq> neighbor) (path st) @ [neighbor])) st"
          by (simp add: dfs_post_def)
        with run show ?thesis by blast
      next
        case False
        from Cons.IH [OF bound pre_rest] obtain r2 st2 where
          rest: "dfs_neighbors adj node rest st = Some (r2, st2)"
          and post2: "dfs_post adj node st r2 st2"
          by auto
        have "dfs_neighbors adj node (neighbor # rest) st = Some (r2, st2)"
          by (subst dfs_neighbors.simps) (simp add: True False rest)
        with post2 show ?thesis by blast
      qed
    qed
  qed
qed

lemma neighbors_of_adjacency_add:
  "neighbors_of (adjacency_add adj c) a
     = neighbors_of adj a @ (if conn_from c = a then [conn_to c] else [])"
  by (simp add: neighbors_of_def adjacency_add_def Let_def split: option.splits)

lemma neighbors_of_foldl:
  "neighbors_of (foldl adjacency_add adj conns) a
     = neighbors_of adj a @ map conn_to (filter (\<lambda>c. conn_from c = a) conns)"
  by (induction conns arbitrary: adj) (simp_all add: neighbors_of_adjacency_add)

lemma neighbors_of_buildAdjacencyList:
  "neighbors_of (buildAdjacencyList conns) a
     = map conn_to (filter (\<lambda>c. conn_from c = a) conns)"
  by (simp add: buildAdjacencyList_def neighbors_of_foldl) (simp add: neighbors_of_def)

lemma edges_of_buildAdjacencyList:
  "edges_of (buildAdjacencyList conns) = (\<lambda>c. (conn_from c, conn_to c)) ` set conns"
  by (auto simp add: edges_of_def neighbors_of_buildAdjacencyList)

lemma successively_reaches_last:
  "successively (\<lambda>a b. (a, b) \<in> E) p \<Longrightarrow> c \<in> set p \<Longrightarrow> (c, last p) \<in> E\<^sup>*"
proof (induction p arbitrary: c)
  case Nil
  then show ?case by simp
next
  case (Cons x p)
  show ?case
  proof (cases p)
    case Nil
    with Cons.prems show ?thesis by simp
  next
    case inner: (Cons y q)
    from Cons.prems(1) inner have step: "(x, y) \<in> E"
      and tail: "successively (\<lambda>a b. (a, b) \<in> E) p"
      by simp_all
    have lasts: "last (x # p) = last p"
      using inner by simp
    show ?thesis
    proof (cases "c \<in> set p")
      case True
      from Cons.IH [OF tail True] lasts show ?thesis by simp
    next
      case False
      with Cons.prems(2) have "c = x" by simp
      have "y \<in> set p" using inner by simp
      from Cons.IH [OF tail this] have "(y, last p) \<in> E\<^sup>*" .
      with step have "(x, last p) \<in> E\<^sup>*"
        by (rule converse_rtrancl_into_rtrancl)
      with \<open>c = x\<close> lasts show ?thesis by simp
    qed
  qed
qed

lemma reported_not_acyclic:
  assumes "reported adj p cycle"
  shows "\<not> acyclic (edges_of adj)"
proof -
  from assms obtain c where chain: "successively (\<lambda>a b. (a, b) \<in> edges_of adj) p"
    and member: "c \<in> set p" and closing: "(last p, c) \<in> edges_of adj"
    by (auto simp add: reported_def)
  from successively_reaches_last [OF chain member] closing
  have "(c, c) \<in> (edges_of adj)\<^sup>+"
    by (rule rtrancl_into_trancl1)
  then show ?thesis by (auto simp add: acyclic_def)
qed

lemma roots_post_Cons: "roots_post adj roots r \<Longrightarrow> roots_post adj (start # roots) r"
  by (auto simp add: roots_post_def split: option.splits)

lemma detect_from_roots_correct:
  assumes fin: "finite U" and closed: "\<forall>a. set (neighbors_of adj a) \<subseteq> U"
  shows "path st = [] \<Longrightarrow> recursionStack st = {}
    \<Longrightarrow> \<exists>r. detect_from_roots adj roots st = Some r \<and> roots_post adj roots r"
proof (induction roots arbitrary: st)
  case Nil
  then show ?case by (simp add: roots_post_def)
next
  case (Cons start roots)
  show ?case
  proof (cases "start \<in> visited st")
    case True
    from Cons.IH [OF Cons.prems] obtain r where
      "detect_from_roots adj roots st = Some r" and "roots_post adj roots r"
      by auto
    with True show ?thesis
      by (auto intro: roots_post_Cons)
  next
    case False
    from Cons.prems have pre: "dfs_pre adj start (neighbors_of adj start) (enter start st)"
      by (simp add: dfs_pre_def enter_def)
    from dfs_neighbors_correct [OF fin closed order_refl pre]
    obtain r st' where run: "dfsDetectCycle adj start st = Some (r, st')"
      and post: "dfs_post adj start (enter start st) r st'"
      by (auto simp add: dfsDetectCycle_def)
    show ?thesis
    proof (cases r)
      case None
      with post Cons.prems have "path st' = []" "recursionStack st' = {}"
        by (simp_all add: dfs_post_def enter_def)
      from Cons.IH [OF this] obtain r2 where
        "detect_from_roots adj roots st' = Some r2" and "roots_post adj roots r2"
        by auto
      with False run None show ?thesis
        by (auto intro: roots_post_Cons)
    next
      case (Some cycle)
      with post Cons.prems have pf: "prefix [start] (path st')"
        and rep: "reported adj (path st') cycle"
        by (simp_all add: dfs_post_def enter_def)
      from pf have "hd (path st') = start"
        by (auto simp add: prefix_def)
      with rep have "roots_post adj (start # roots) (Some cycle)"
        by (auto simp add: roots_post_def)
      with False run Some show ?thesis
        by simp
    qed
  qed
qed

lemma dfs_neighbors_Nil:
  "dfs_neighbors adj node [] st = Some (None, leave node st)"
  by (subst dfs_neighbors.simps) simp

lemma dfs_neighbors_Cons:
  "dfs_neighbors adj node (neighbor # rest) st =
     (if neighbor \<notin> visited st then
        Option.bind (dfsDetectCycle adj neighbor st)
          (\<lambda>(cycle, st'). case cycle of
               Some c \<Rightarrow> Some (Some c, st')
             | None \<Rightarrow> dfs_neighbors adj node rest st')
      else if neighbor \<in> recursionStack st then
        Some (Some (slice (path st) (indexOf (path st) neighbor) @ [neighbor]), st)
      else dfs_neighbors adj node rest st)"
  by (subst dfs_neighbors.simps) (simp add: dfsDetectCycle_def)

lemma detect_skip_isolated:
  assumes "\<forall>r \<in> set pre. neighbors_of adj r = []"
  shows "path st = [] \<Longrightarrow> recursionStack st = {}
    \<Longrightarrow> detect_from_roots adj (pre @ roots) st
        = detect_from_roots adj roots (st\<lparr>visited := visited st \<union> set pre\<rparr>)"
  using assms
proof (induction pre arbitrary: st)
  case Nil
  then show ?case by simp
next
  case (Cons r pre)
  show ?case
  proof (cases "r \<in> visited st")
    case True
    then have "visited st \<union> set (r # pre) = visited st \<union> set pre" by auto
    with Cons True show ?thesis by simp
  next
    case False
    from Cons.prems have iso: "neighbors_of adj r = []" by simp
    from Cons.prems have after: "leave r (enter r st) = st\<lparr>visited := insert r (visited st)\<rparr>"
      by (simp add: leave_def enter_def)
    have run: "dfsDetectCycle adj r st = Some (None, st\<lparr>visited := insert r (visited st)\<rparr>)"
      by (simp add: dfsDetectCycle_def iso dfs_neighbors_Nil after)
    from Cons.prems have
      "detect_from_roots adj (pre @ roots) (st\<lparr>visited := insert r (visited st)\<rparr>)
        = detect_from_roots adj roots
            (st\<lparr>visited := insert r (visited st)\<rparr>
               \<lparr>visited := visited (st\<lparr>visited := insert r (visited st)\<rparr>) \<union> set pre\<rparr>)"
      by (intro Cons.IH) simp_all
    with False run show ?thesis by simp
  qed
qed

lemma detect_three_cycle:
  assumes "distinct [A, B, C]"
    and "neighbors_of adj A = B # nA" and "neighbors_of adj B = C # nB"
    and "neighbors_of adj C = A # nC"
    and "A \<notin> visited st" and "B \<notin> visited st" and "C \<notin> visited st"
    and "path st = []" and "recursionStack st = {}"
  shows "detect_from_roots adj (A # rest) st = Some (Some [A, B, C, A])"
proof -
  from assms(1) have "A \<noteq> B" "B \<noteq> A" "A \<noteq> C" "C \<noteq> A" "B \<noteq> C" "C \<noteq> B"
    by auto
  with assms(2-) show ?thesis
    by (simp add: dfsDetectCycle_def dfs_neighbors_Cons enter_def slice_def indexOf_def)
qed

lemma detect_self_loop:
  assumes "neighbors_of adj X = X # nX" and "X \<notin> visited st"
    and "path st = []" and "recursionStack st = {}"
  shows "detect_from_roots adj (X # rest) st = Some (Some [X, X])"
  using assms
  by (simp add: dfsDetectCycle_def dfs_neighbors_Cons enter_def slice_def indexOf_def)

lemma neighbors_single_target:
  assumes "\<forall>c \<in> set conns. conn_from c = a \<longrightarrow> conn_to c = b"
    and "\<exists>c \<in> set conns. conn_from c = a"
  shows "\<exists>ns. neighbors_of (buildAdjacencyList conns) a = b # ns"
proof -
  let ?l = "map conn_to (filter (\<lambda>c. conn_from c = a) conns)"
  from assms(2) have "?l \<noteq> []"
    by (auto simp add: filter_empty_conv)
  then obtain x xs where l: "?l = x # xs"
    by (cases ?l) auto
  then have "x \<in> set ?l" by simp
  with assms(1) have "x = b" by auto
  with l show ?thesis
    by (simp add: neighbors_of_buildAdjacencyList)
qed

lemma neighbors_no_source:
  assumes "\<forall>c \<in> set conns. conn_from c \<noteq> a"
  shows "neighbors_of (buildAdjacencyList conns) a = []"
  using assms by (simp add: neighbors_of_buildAdjacencyList filter_empty_conv)

lemma detect_three_cycle_graph:
  assumes d: "distinct [A, B, C]"
    and conns: "set conns = {\<lparr>conn_from = A, conn_to = B\<rparr>, \<lparr>conn_from = B, conn_to = C\<rparr>,
        \<lparr>conn_from = C, conn_to = A\<rparr>}"
    and keys: "keys = pre @ A # rest"
    and pre: "A \<notin> set pre" "B \<notin> set pre" "C \<notin> set pre"
  shows "detect conns keys = Some (Some [A, B, C, A])"
proof -
  let ?adj = "buildAdjacencyList conns"
  from d conns obtain nA where nA: "neighbors_of ?adj A = B # nA"
    using neighbors_single_target [of conns A B] by auto
  from d conns obtain nB where nB: "neighbors_of ?adj B = C # nB"
    using neighbors_single_target [of conns B C] by auto
  from d conns obtain nC where nC: "neighbors_of ?adj C = A # nC"
    using neighbors_single_target [of conns C A] by auto
  from conns pre have iso: "\<forall>r \<in> set pre. neighbors_of ?adj r = []"
    by (auto intro!: neighbors_no_source)
  have "detect conns keys
      = detect_from_roots ?adj (A # rest) (initial_dfs_state\<lparr>visited := set pre\<rparr>)"
    unfolding detect_def keys
    using detect_skip_isolated [OF iso, of initial_dfs_state "A # rest"]
    by (simp add: initial_dfs_state_def)
  also have "\<dots> = Some (Some [A, B, C, A])"
    using pre by (intro detect_three_cycle [OF d nA nB nC]) (simp_all add: initial_dfs_state_def)
  finally show ?thesis .
qed

lemma detect_self_loop_graph:
  assumes conns: "set conns = {\<lparr>conn_from = X, conn_to = X\<rparr>}"
    and keys: "X \<in> set keys"
  shows "detect conns keys = Some (Some [X, X])"
proof -
  let ?adj = "buildAdjacencyList conns"
  from keys obtain pre rest where split: "keys = pre @ X # rest" and pre: "X \<notin> set pre"
    by (auto dest: split_list_first)
  from conns obtain nX where nX: "neighbors_of ?adj X = X # nX"
    using neighbors_single_target [of conns X X] by auto
  from conns pre have iso: "\<forall>r \<in> set pre. neighbors_of ?adj r = []"
    by (auto intro!: neighbors_no_source)
  have "detect conns keys
      = detect_from_roots ?adj (X # rest) (initial_dfs_state\<lparr>visited := set pre\<rparr>)"
    unfolding detect_def split
    using detect_skip_isolated [OF iso, of initial_dfs_state "X # rest"]
    by (simp add: initial_dfs_state_def)
  also have "\<dots> = Some (Some [X, X])"
    using pre by (intro detect_self_loop [OF nX]) (simp_all add: initial_dfs_state_def)
  finally show ?thesis .
qed

lemma detect_total:
  "\<exists>r. detect conns keys = Some r \<and> roots_post (buildAdjacencyList conns) keys r"
proof -
  have "finite (set (map conn_to conns))" by simp
  moreover have "\<forall>a. set (neighbors_of (buildAdjacencyList conns) a) \<subseteq> set (map conn_to conns)"
    by (auto simp add: neighbors_of_buildAdjacencyList)
  ultimately show ?thesis
    unfolding detect_def
    by (rule detect_from_roots_correct) (simp_all add: initial_dfs_state_def)
qed

lemma detect_acyclic:
  assumes "acyclic ((\<lambda>c. (conn_from c, conn_to c)) ` set conns)"
  shows "detect conns keys = Some None"
proof -
  from detect_total [of conns keys] obtain r where run: "detect conns keys = Some r"
    and post: "roots_post (buildAdjacencyList conns) keys r"
    by auto
  show ?thesis
  proof (cases r)
    case None
    with run show ?thesis by simp
  next
    case (Some cycle)
    with post obtain p where "reported (buildAdjacencyList conns) p cycle"
      by (auto simp add: roots_post_def)
    from reported_not_acyclic [OF this] assms show ?thesis
      by (simp add: edges_of_buildAdjacencyList)
  qed
qed

section \<open>The cycle that \<open>validate\<close> reports\<close>

lemma roots_post_closes_path:
  assumes "roots_post (buildAdjacencyList (connections s)) (map fst (blocks s)) (Some cycle)"
  shows "\<exists>p c. closes_path s p c \<and> cycle = dropWhile (\<lambda>x. x \<noteq> c) p @ [c]"
  using assms
  unfolding roots_post_def reported_def closes_path_def connection_edges_def
    edges_of_buildAdjacencyList
  by auto

lemma cycleOfThree_fields:
  "map fst (blocks cycleOfThree) = [''s1'', ''s2'', ''s3'']"
  "connections cycleOfThree =
     [\<lparr>conn_from = ''s1'', conn_to = ''s2''\<rparr>, \<lparr>conn_from = ''s2'', conn_to = ''s3''\<rparr>,
      \<lparr>conn_from = ''s3'', conn_to = ''s1''\<rparr>]"
  by (simp_all add: cycleOfThree_def run_def run_from_def addBlock_def create_def
      validateBlockPlacement_def isUIComponent_def isDomainModel_def isEntity_def
      isValueObject_def isInfrastructure_def Layer_addBlock_def service1_def service2_def
      service3_def createConnection_def validateDependency_def Let_def)

lemma selfReference_fields:
  "map fst (blocks selfReference) = [''s1'']"
  "connections selfReference = [\<lparr>conn_from = ''s1'', conn_to = ''s1''\<rparr>]"
  by (simp_all add: selfReference_def run_def run_from_def addBlock_def create_def
      validateBlockPlacement_def isUIComponent_def isDomainModel_def isEntity_def
      isValueObject_def isInfrastructure_def Layer_addBlock_def service1_def
      createConnection_def validateDependency_def Let_def)

lemma chain_fields:
  "connections chain =
     [\<lparr>conn_from = ''ui-component-UserView-1'', conn_to = ''service-UserService-1''\<rparr>,
      \<lparr>conn_from = ''service-UserService-1'', conn_to = ''entity-User-1''\<rparr>]"
  by (simp add: chain_def run_from_def threeBlocks_eq createConnection_def
      validateDependency_def Let_def)

text \<open>
  C4. \<open>validate\<close> always returns, with the result that \<open>detectCyclicDependency\<close>
  determines. When it reports a cycle, the report is a path of the search (from a
  registered block, along connections, without a repeated node) cut at the first
  occurrence of the closing node \<open>c\<close>, to which the path's last node has a connection,
  with \<open>c\<close> appended. A graph whose connections are a cycle of three distinct blocks
  \<open>A \<rightarrow> B \<rightarrow> C \<rightarrow> A\<close>, of which \<open>A\<close> is the first registered, is reported as
  \<open>[A, B, C, A]\<close>; a graph whose only connection goes from \<open>X\<close> to \<open>X\<close> is reported
  as \<open>[X, X]\<close>; an acyclic connection graph is reported valid, with no violation.
\<close>

theorem validate_cycle_report:
  "(\<exists>r. LayerStructure_validate s = Some (validation_of r)
        \<and> (case r of None \<Rightarrow> True
            | Some cycle \<Rightarrow>
                \<exists>p c. closes_path s p c \<and> cycle = dropWhile (\<lambda>x. x \<noteq> c) p @ [c]))
   \<and> (acyclic (connection_edges s)
        \<longrightarrow> LayerStructure_validate s = Some (ValidationResult_valid None))
   \<and> (distinct [A, B, C]
        \<and> set (connections s) = {\<lparr>conn_from = A, conn_to = B\<rparr>, \<lparr>conn_from = B, conn_to = C\<rparr>,
              \<lparr>conn_from = C, conn_to = A\<rparr>}
        \<and> map fst (blocks s) = pre @ A # rest
        \<and> A \<notin> set pre \<and> B \<notin> set pre \<and> C \<notin> set pre
        \<longrightarrow> LayerStructure_validate s = Some (validation_of (Some [A, B, C, A])))
   \<and> (set (connections s) = {\<lparr>conn_from = X, conn_to = X\<rparr>}
        \<and> X \<in> set (map fst (blocks s))
        \<longrightarrow> LayerStructure_validate s = Some (validation_of (Some [X, X])))"
proof -
  from detect_total [of "connections s" "map fst (blocks s)"] obtain r where
    run: "detectCyclicDependency s = Some r"
    and post: "roots_post (buildAdjacencyList (connections s)) (map fst (blocks s)) r"
    by (auto simp add: detectCyclicDependency_def)
  have shape: "case r of None \<Rightarrow> True
      | Some cycle \<Rightarrow> \<exists>p c. closes_path s p c \<and> cycle = dropWhile (\<lambda>x. x \<noteq> c) p @ [c]"
  proof (cases r)
    case None
    then show ?thesis by simp
  next
    case (Some cycle)
    with post roots_post_closes_path [of s cycle] show ?thesis by simp
  qed
  from run shape have first: "\<exists>r. LayerStructure_validate s = Some (validation_of r)
        \<and> (case r of None \<Rightarrow> True
            | Some cycle \<Rightarrow>
                \<exists>p c. closes_path s p c \<and> cycle = dropWhile (\<lambda>x. x \<noteq> c) p @ [c])"
    by (auto simp add: LayerStructure_validate_def)
  have second: "acyclic (connection_edges s)
        \<longrightarrow> LayerStructure_validate s = Some (ValidationResult_valid None)"
    using detect_acyclic [of "connections s" "map fst (blocks s)"]
    by (simp add: LayerStructure_validate_def detectCyclicDependency_def connection_edges_def
        validation_of_def)
  have third: "distinct [A, B, C]
        \<and> set (connections s) = {\<lparr>conn_from = A, conn_to = B\<rparr>, \<lparr>conn_from = B, conn_to = C\<rparr>,
              \<lparr>conn_from = C, conn_to = A\<rparr>}
        \<and> map fst (blocks s) = pre @ A # rest
        \<and> A \<notin> set pre \<and> B \<notin> set pre \<and> C \<notin> set pre
        \<longrightarrow> LayerStructure_validate s = Some (validation_of (Some [A, B, C, A]))"
    using detect_three_cycle_graph [of A B C "connections s" "map fst (blocks s)" pre rest]
    by (simp add: LayerStructure_validate_def detectCyclicDependency_def)
  have fourth: "set (connections s) = {\<lparr>conn_from = X, conn_to = X\<rparr>}
        \<and> X \<in> set (map fst (blocks s))
        \<longrightarrow> LayerStructure_validate s = Some (validation_of (Some [X, X]))"
    using detect_self_loop_graph [of "connections s" X "map fst (blocks s)"]
    by (simp add: LayerStructure_validate_def detectCyclicDependency_def)
  from first second third fourth show ?thesis by blast
qed

theorem validate_cycle_report_witness:
  "LayerStructure_validate cycleOfThree =
     Some \<lparr>isValid = False,
           violations = [\<lparr>violation_type = ''CYCLIC_DEPENDENCY'',
             message = CyclicDependencyDetected ''s1 -> s2 -> s3 -> s1'',
             details = Some (CycleDetails [''s1'', ''s2'', ''s3'', ''s1''])\<rparr>],
           score = None\<rparr>
   \<and> LayerStructure_validate selfReference =
     Some \<lparr>isValid = False,
           violations = [\<lparr>violation_type = ''CYCLIC_DEPENDENCY'',
             message = CyclicDependencyDetected ''s1 -> s1'',
             details = Some (CycleDetails [''s1'', ''s1''])\<rparr>],
           score = None\<rparr>
   \<and> LayerStructure_validate chain = Some \<lparr>isValid = True, violations = [], score = None\<rparr>"
proof -
  have "acyclic ({} :: (string \<times> string) set)"
    by (simp add: acyclic_def)
  then have acyc: "acyclic (connection_edges chain)"
    by (simp add: connection_edges_def chain_fields rtrancl_insert)
  from acyc validate_cycle_report [of cycleOfThree "''s1''" "''s2''" "''s3''" "[]"
      "[''s2'', ''s3'']" "''s1''"]
    validate_cycle_report [of selfReference "''s1''" "''s2''" "''s3''" "[]" "[]" "''s1''"]
    validate_cycle_report [of chain "''s1''" "''s2''" "''s3''" "[]" "[]" "''s1''"]
  show ?thesis
    by (simp add: cycleOfThree_fields selfReference_fields validation_of_def
        ValidationResult_invalid_def ValidationResult_valid_def)
qed

section \<open>Rounding to binary64\<close>

lemma floor_rat_numeral: "\<lfloor>numeral a / numeral b :: rat\<rfloor> = numeral a div numeral b"
  using floor_divide_of_int_eq [of "numeral a" "numeral b", where ?'a = rat] by simp

lemma ceiling_rat_numeral: "\<lceil>numeral a / numeral b :: rat\<rceil> = - (- numeral a div numeral b)"
  using ceiling_divide_eq_div [of "numeral a" "numeral b", where ?'a = rat] by simp

lemma floor_rat_one_numeral: "\<lfloor>1 / numeral b :: rat\<rfloor> = 1 div numeral b"
  using floor_divide_of_int_eq [of 1 "numeral b", where ?'a = rat] by simp

lemma round_half_even_nonneg: "0 \<le> x \<Longrightarrow> 0 \<le> round_half_even x"
  by (simp add: round_half_even_def Let_def)

lemma round_half_even_le:
  assumes "x \<le> of_int N"
  shows "round_half_even x \<le> N"
proof -
  from assms have "\<lfloor>x\<rfloor> \<le> \<lfloor>of_int N :: rat\<rfloor>" by (rule floor_mono)
  then have f: "\<lfloor>x\<rfloor> \<le> N" by simp
  show ?thesis
  proof (cases "\<lfloor>x\<rfloor> = N")
    case True
    with assms have "x - of_int \<lfloor>x\<rfloor> \<le> 0" by simp
    then have "x - of_int \<lfloor>x\<rfloor> < 1 / 2" by linarith
    with True show ?thesis by (simp add: round_half_even_def Let_def)
  next
    case False
    with f have "\<lfloor>x\<rfloor> + 1 \<le> N" by simp
    then show ?thesis by (simp add: round_half_even_def Let_def)
  qed
qed

lemma expo_bounds:
  assumes "x \<noteq> 0"
  shows "2 powi (expo x) \<le> \<bar>x\<bar>" and "\<bar>x\<bar> < 2 powi (expo x + 1)"
proof -
  have "2 powi (expo x) \<le> \<bar>x\<bar> \<and> \<bar>x\<bar> < 2 powi (expo x + 1)"
  proof (cases "1 \<le> \<bar>x\<bar>")
    case True
    define n where "n = \<lfloor>\<bar>x\<bar>\<rfloor>"
    from True have n: "0 < n" by (simp add: n_def)
    then have b1: "1 \<le> bitlen n" by (simp add: bitlen_alt_def)
    from bitlen_bounds [OF n] have lo: "2 ^ nat (bitlen n - 1) \<le> n"
      and hi: "n < 2 ^ nat (bitlen n)" by simp_all
    have e: "expo x = bitlen n - 1" using True by (simp add: expo_def n_def)
    have "(2::rat) powi (bitlen n - 1) = 2 ^ nat (bitlen n - 1)"
      using b1 by (simp add: power_int_def)
    also have "\<dots> = of_int (2 ^ nat (bitlen n - 1))" by simp
    also have "\<dots> \<le> of_int n" using lo by (simp only: of_int_le_iff)
    also have "\<dots> \<le> \<bar>x\<bar>"
      using floor_correct [of "\<bar>x\<bar>"] by (simp add: n_def)
    finally have low: "2 powi (expo x) \<le> \<bar>x\<bar>" by (simp add: e)
    from hi have "n + 1 \<le> 2 ^ nat (bitlen n)" by simp
    then have "(of_int (n + 1) :: rat) \<le> of_int (2 ^ nat (bitlen n))"
      by (simp only: of_int_le_iff)
    moreover have "\<bar>x\<bar> < of_int (n + 1)"
      using floor_correct [of "\<bar>x\<bar>"] by (simp add: n_def)
    ultimately have "\<bar>x\<bar> < of_int (2 ^ nat (bitlen n))" by linarith
    moreover have "(2::rat) powi (bitlen n) = of_int (2 ^ nat (bitlen n))"
      using b1 by (simp add: power_int_def)
    ultimately have "\<bar>x\<bar> < 2 powi (expo x + 1)" by (simp add: e)
    with low show ?thesis by simp
  next
    case False
    define y where "y = 1 / \<bar>x\<bar>"
    define m where "m = \<lceil>y\<rceil> - 1"
    from False assms have y1: "1 < y" by (simp add: y_def)
    then have "1 < \<lceil>y\<rceil>" by (simp add: less_ceiling_iff)
    then have m: "0 < m" by (simp add: m_def)
    then have b1: "1 \<le> bitlen m" by (simp add: bitlen_alt_def)
    from bitlen_bounds [OF m] have lo: "2 ^ nat (bitlen m - 1) \<le> m"
      and hi: "m < 2 ^ nat (bitlen m)" by simp_all
    have e: "expo x = - bitlen m" using False by (simp add: expo_def m_def y_def)
    have xy: "\<bar>x\<bar> = 1 / y" using assms by (simp add: y_def)
    have ypos: "0 < y" using y1 by simp
    from hi have "m + 1 \<le> 2 ^ nat (bitlen m)" by simp
    then have "(of_int (m + 1) :: rat) \<le> of_int (2 ^ nat (bitlen m))"
      by (simp only: of_int_le_iff)
    then have "(of_int (m + 1) :: rat) \<le> 2 ^ nat (bitlen m)" by simp
    moreover have "y \<le> of_int (m + 1)"
      using ceiling_correct [of y] by (simp add: m_def)
    ultimately have yhi: "y \<le> 2 ^ nat (bitlen m)" by (rule order_trans [rotated])
    have "(of_int (2 ^ nat (bitlen m - 1)) :: rat) \<le> of_int m"
      using lo by (simp only: of_int_le_iff)
    then have "(2::rat) ^ nat (bitlen m - 1) \<le> of_int m" by simp
    moreover have "of_int m < y"
      using ceiling_correct [of y] by (simp add: m_def)
    ultimately have ylo: "2 ^ nat (bitlen m - 1) < y" by (rule le_less_trans)
    have p1: "(2::rat) powi (- bitlen m) = 1 / 2 ^ nat (bitlen m)"
      using b1 by (simp add: power_int_def field_simps)
    have p2: "(2::rat) powi (- bitlen m + 1) = 1 / 2 ^ nat (bitlen m - 1)"
      using b1 by (simp add: power_int_def field_simps nat_diff_distrib)
    have "1 / 2 ^ nat (bitlen m) \<le> 1 / y"
      using yhi ypos by (simp add: frac_le)
    moreover have "1 / y < 1 / 2 ^ nat (bitlen m - 1)"
      using ylo by (simp add: frac_less2)
    ultimately show ?thesis unfolding e xy p1 p2 by simp
  qed
  then show "2 powi (expo x) \<le> \<bar>x\<bar>" and "\<bar>x\<bar> < 2 powi (expo x + 1)" by simp_all
qed

lemmas fl_eval = to_double_def expo_def compute_bitlen round_half_even_def Let_def
  floor_rat_numeral ceiling_rat_numeral floor_rat_one_numeral

lemma WEIGHTS_values:
  "WEIGHTS_accuracy = Fin (3152519739159347 / 9007199254740992)"
  "WEIGHTS_efficiency = Fin (1 / 4)"
  "WEIGHTS_maintainability = Fin (1 / 4)"
  "WEIGHTS_speed = Fin (5404319552844595 / 36028797018963968)"
  by (simp_all add: WEIGHTS_accuracy_def WEIGHTS_efficiency_def WEIGHTS_maintainability_def
      WEIGHTS_speed_def fl_eval)

lemma to_double_bounded:
  assumes x0: "0 \<le> x" and xN: "x \<le> of_int N" and N: "N < 2 ^ 53"
  shows "\<exists>y. to_double x = Fin y \<and> 0 \<le> y \<and> y \<le> of_int N"
proof (cases "x = 0")
  case True
  with xN show ?thesis by (simp add: to_double_def)
next
  case False
  with x0 have xpos: "0 < x" by simp
  define e where "e = max (expo x) (- 1022)"
  define q :: rat where "q = 2 powi (e - 52)"
  define k where "k = round_half_even (x / q)"
  have qpos: "0 < q" by (simp add: q_def zero_less_power_int)
  have e52: "e \<le> 52"
  proof (rule ccontr)
    assume "\<not> e \<le> 52"
    then have big: "53 \<le> expo x" by (simp add: e_def)
    have "(2::rat) powi 53 \<le> 2 powi (expo x)"
      by (rule power_int_increasing [OF big]) simp
    also have "\<dots> \<le> \<bar>x\<bar>" by (rule expo_bounds(1) [OF False])
    also have "\<dots> \<le> of_int N" using x0 xN by simp
    finally have "(2::rat) ^ 53 \<le> of_int N" by simp
    then have "(of_int (2 ^ 53) :: rat) \<le> of_int N" by simp
    then have "(2::int) ^ 53 \<le> N" by (simp only: of_int_le_iff)
    with N show False by simp
  qed
  define j where "j = nat (52 - e)"
  have qj: "q = 1 / 2 ^ j"
    using e52 by (simp add: q_def j_def power_int_def field_simps)
  have "x / q \<le> of_int N / q"
    using xN qpos by (simp add: divide_right_mono)
  also have "of_int N / q = of_int (N * 2 ^ j)"
    by (simp add: qj)
  finally have "k \<le> N * 2 ^ j"
    unfolding k_def by (rule round_half_even_le)
  then have "(of_int k :: rat) \<le> of_int (N * 2 ^ j)"
    by (simp only: of_int_le_iff)
  then have "of_int k * q \<le> of_int (N * 2 ^ j) * q"
    using qpos by (simp add: mult_right_mono)
  also have "\<dots> = of_int N" by (simp add: qj)
  finally have upper: "of_int k * q \<le> of_int N" .
  have "0 \<le> x / q" using x0 qpos by simp
  then have "0 \<le> k" unfolding k_def by (rule round_half_even_nonneg)
  then have lower: "0 \<le> of_int k * q" using qpos by simp
  have "(of_int N :: rat) < of_int (2 ^ 53)" using N by (simp only: of_int_less_iff)
  also have "\<dots> \<le> 2 powi 1024" by simp
  finally have "of_int k * q < 2 powi 1024" using upper by simp
  with lower have "\<not> 2 powi 1024 \<le> \<bar>of_int k * q\<bar>" by simp
  then have "to_double x = Fin (of_int k * q)"
    using False by (simp add: to_double_def Let_def e_def q_def k_def)
  with lower upper show ?thesis by simp
qed

lemma in_0_100_not_outside: "in_0_100 v \<Longrightarrow> \<not> outside_0_100 v"
  by (cases v) (simp_all add: in_0_100_def outside_0_100_def js_gt_def)

lemma weighted_product_bounded:
  assumes v: "in_0_100 v" and w: "0 \<le> w" and wN: "100 * w \<le> of_int N" and N: "N < 2 ^ 53"
  shows "\<exists>p. js_mul v (Fin w) = Fin p \<and> 0 \<le> p \<and> p \<le> of_int N"
proof -
  from v obtain a where a: "v = Fin a" "0 \<le> a" "a \<le> 100"
    by (cases v) (simp_all add: in_0_100_def)
  from a(3) w have "a * w \<le> 100 * w" by (rule mult_right_mono)
  with wN have "a * w \<le> of_int N" by simp
  moreover from a(2) w have "0 \<le> a * w" by simp
  ultimately show ?thesis
    using to_double_bounded [of "a * w" N] N by (simp add: a(1))
qed

lemma sum_bounded:
  assumes "0 \<le> p" "p \<le> of_int M" "0 \<le> r" "r \<le> of_int K" "M + K < 2 ^ 53"
  shows "\<exists>t. js_add (Fin p) (Fin r) = Fin t \<and> 0 \<le> t \<and> t \<le> of_int (M + K)"
  using to_double_bounded [of "p + r" "M + K"] assms by simp

lemma weightedSum_bounded:
  assumes "in_0_100 (accuracy m)" "in_0_100 (efficiency m)" "in_0_100 (maintainability m)"
    "in_0_100 (speed m)"
  shows "\<exists>t. weightedSum m = Fin t \<and> 0 \<le> t \<and> t \<le> 100"
proof -
  from weighted_product_bounded [OF assms(1), of "3152519739159347 / 9007199254740992" 35] obtain p1 where
    p1: "js_mul (accuracy m) WEIGHTS_accuracy = Fin p1" "0 \<le> p1" "p1 \<le> 35"
    by (auto simp add: WEIGHTS_values)
  from weighted_product_bounded [OF assms(2), of "1 / 4" 25] obtain p2 where
    p2: "js_mul (efficiency m) WEIGHTS_efficiency = Fin p2" "0 \<le> p2" "p2 \<le> 25"
    by (auto simp add: WEIGHTS_values)
  from weighted_product_bounded [OF assms(3), of "1 / 4" 25] obtain p3 where
    p3: "js_mul (maintainability m) WEIGHTS_maintainability = Fin p3" "0 \<le> p3" "p3 \<le> 25"
    by (auto simp add: WEIGHTS_values)
  from weighted_product_bounded [OF assms(4), of "5404319552844595 / 36028797018963968" 15] obtain p4 where
    p4: "js_mul (speed m) WEIGHTS_speed = Fin p4" "0 \<le> p4" "p4 \<le> 15"
    by (auto simp add: WEIGHTS_values)
  from sum_bounded [of p1 35 p2 25] p1 p2 obtain s1 where
    s1: "js_add (Fin p1) (Fin p2) = Fin s1" "0 \<le> s1" "s1 \<le> 60"
    by auto
  from sum_bounded [of s1 60 p3 25] s1 p3 obtain s2 where
    s2: "js_add (Fin s1) (Fin p3) = Fin s2" "0 \<le> s2" "s2 \<le> 85"
    by auto
  from sum_bounded [of s2 85 p4 15] s2 p4 obtain s3 where
    s3: "js_add (Fin s2) (Fin p4) = Fin s3" "0 \<le> s3" "s3 \<le> 100"
    by auto
  show ?thesis
    unfolding weightedSum_def p1(1) p2(1) p3(1) p4(1) s1(1) s2(1) s3(1)
    using s3(2,3) by simp
qed

lemma calculate_in_range:
  assumes "in_0_100 (accuracy m)" "in_0_100 (efficiency m)" "in_0_100 (maintainability m)"
    "in_0_100 (speed m)"
  shows "calculate m = Inr \<lparr>score_value = Math_round (weightedSum m)\<rparr>"
proof -
  from weightedSum_bounded [OF assms] obtain t where
    t: "weightedSum m = Fin t" "0 \<le> t" "t \<le> 100"
    by auto
  from t(2) have lo: "0 \<le> \<lfloor>t + 1 / 2\<rfloor>" by simp
  from t(3) have "t + 1 / 2 < 101" by simp
  then have "\<lfloor>t + 1 / 2\<rfloor> < 101" by (simp add: floor_less_iff)
  then have hi: "\<lfloor>t + 1 / 2\<rfloor> \<le> 100" by simp
  from lo hi have "new_Score (Math_round (Fin t)) = Inr \<lparr>score_value = Math_round (Fin t)\<rparr>"
    by (simp add: new_Score_def js_gt_def)
  with assms show ?thesis
    using in_0_100_not_outside [of "accuracy m"] in_0_100_not_outside [of "efficiency m"]
      in_0_100_not_outside [of "maintainability m"] in_0_100_not_outside [of "speed m"]
    by (simp add: calculate_def t(1) outside_0_100_def)
qed

lemma calculate_out_of_range:
  assumes "outside_0_100 (accuracy m) \<or> outside_0_100 (efficiency m)
    \<or> outside_0_100 (maintainability m) \<or> outside_0_100 (speed m)"
  shows "calculate m = Inl MetricOutOfRange"
  using assms by (auto simp add: calculate_def outside_0_100_def)

lemma round_half_even_error: "\<bar>of_int (round_half_even t) - t\<bar> \<le> 1 / 2"
proof -
  have "of_int \<lfloor>t\<rfloor> \<le> t" "t < of_int \<lfloor>t\<rfloor> + 1"
    using floor_correct [of t] by simp_all
  then show ?thesis
    by (auto simp add: round_half_even_def Let_def abs_le_iff)
qed

lemma expo_less:
  assumes "x \<noteq> 0" and "\<bar>x\<bar> < 2 powi n"
  shows "expo x < n"
proof (rule ccontr)
  assume "\<not> expo x < n"
  then have "n \<le> expo x" by simp
  then have "(2::rat) powi n \<le> 2 powi (expo x)"
    by (rule power_int_increasing) simp
  also have "\<dots> \<le> \<bar>x\<bar>" by (rule expo_bounds(1) [OF assms(1)])
  finally show False using assms(2) by simp
qed

lemma to_double_error:
  assumes x0: "0 \<le> x" and xN: "x \<le> of_int N" and N: "N \<le> 100"
  shows "\<exists>y. to_double x = Fin y \<and> 0 \<le> y \<and> y \<le> of_int N \<and> \<bar>y - x\<bar> \<le> 1 / 2 ^ 47"
proof (cases "x = 0")
  case True
  with xN show ?thesis by (simp add: to_double_def)
next
  case False
  from N have "N < 2 ^ 53" by simp
  from to_double_bounded [OF x0 xN this] obtain y where
    y: "to_double x = Fin y" "0 \<le> y" "y \<le> of_int N"
    by auto
  define e where "e = max (expo x) (- 1022)"
  define q :: rat where "q = 2 powi (e - 52)"
  define k where "k = round_half_even (x / q)"
  have qpos: "0 < q" by (simp add: q_def zero_less_power_int)
  from y(1) False have yk: "y = of_int k * q"
    by (simp add: to_double_def Let_def e_def q_def k_def split: if_splits)
  from N have "(of_int N :: rat) \<le> 100" by simp
  with x0 xN have "\<bar>x\<bar> < 2 powi 7" by simp
  from expo_less [OF False this] have "e \<le> 6" by (simp add: e_def)
  then have "e - 52 \<le> - 46" by simp
  then have "q \<le> 2 powi (- 46)"
    unfolding q_def by (rule power_int_increasing) simp
  then have qsmall: "q \<le> 1 / 2 ^ 46" by (simp add: power_int_minus_divide)
  have "\<bar>of_int k - x / q\<bar> \<le> 1 / 2"
    unfolding k_def by (rule round_half_even_error)
  then have "\<bar>of_int k - x / q\<bar> * q \<le> 1 / 2 * q"
    using qpos by (simp add: mult_right_mono)
  moreover have "(of_int k - x / q) * q = of_int k * q - x"
    using qpos by (simp add: left_diff_distrib)
  then have "\<bar>of_int k - x / q\<bar> * q = \<bar>of_int k * q - x\<bar>"
    using qpos abs_mult [of "of_int k - x / q" q] by simp
  ultimately have "\<bar>y - x\<bar> \<le> q / 2" by (simp add: yk)
  with qsmall have "\<bar>y - x\<bar> \<le> 1 / 2 ^ 47" by simp
  with y show ?thesis by simp
qed

lemma abs_diff_bounds:
  fixes u v c :: rat
  assumes "\<bar>u - v\<bar> \<le> c"
  shows "u - v \<le> c" and "v - u \<le> c"
  using assms by linarith+

lemma weightedSum_error:
  assumes a: "0 \<le> a" "a \<le> 100" and e: "0 \<le> e" "e \<le> 100"
    and m: "0 \<le> m" "m \<le> 100" and s: "0 \<le> s" "s \<le> 100"
  shows "\<exists>S. weightedSum \<lparr>accuracy = Fin a, efficiency = Fin e, maintainability = Fin m,
            speed = Fin s\<rparr> = Fin S
          \<and> 0 \<le> S \<and> S \<le> 100 \<and> \<bar>S - exact_weighted_sum a e m s\<bar> \<le> 1 / 2 ^ 43"
proof -
  define w35 :: rat where "w35 = 3152519739159347 / 9007199254740992"
  define w15 :: rat where "w15 = 5404319552844595 / 36028797018963968"
  have a1: "0 \<le> a * w35" "a * w35 \<le> of_int 35" using a by (simp_all add: w35_def)
  have e1: "0 \<le> e / 4" "e / 4 \<le> of_int 25" using e by simp_all
  have m1: "0 \<le> m / 4" "m / 4 \<le> of_int 25" using m by simp_all
  have s1: "0 \<le> s * w15" "s * w15 \<le> of_int 15" using s by (simp_all add: w15_def)
  from to_double_error [OF a1] obtain p1 where
    p1: "to_double (a * w35) = Fin p1" "0 \<le> p1" "p1 \<le> 35" "\<bar>p1 - a * w35\<bar> \<le> 1 / 2 ^ 47"
    by auto
  from to_double_error [OF e1] obtain p2 where
    p2: "to_double (e / 4) = Fin p2" "0 \<le> p2" "p2 \<le> 25" "\<bar>p2 - e / 4\<bar> \<le> 1 / 2 ^ 47"
    by auto
  from to_double_error [OF m1] obtain p3 where
    p3: "to_double (m / 4) = Fin p3" "0 \<le> p3" "p3 \<le> 25" "\<bar>p3 - m / 4\<bar> \<le> 1 / 2 ^ 47"
    by auto
  from to_double_error [OF s1] obtain p4 where
    p4: "to_double (s * w15) = Fin p4" "0 \<le> p4" "p4 \<le> 15" "\<bar>p4 - s * w15\<bar> \<le> 1 / 2 ^ 47"
    by auto
  from to_double_error [of "p1 + p2" 60] p1 p2 obtain t1 where
    t1: "to_double (p1 + p2) = Fin t1" "0 \<le> t1" "t1 \<le> 60" "\<bar>t1 - (p1 + p2)\<bar> \<le> 1 / 2 ^ 47"
    by auto
  from to_double_error [of "t1 + p3" 85] t1 p3 obtain t2 where
    t2: "to_double (t1 + p3) = Fin t2" "0 \<le> t2" "t2 \<le> 85" "\<bar>t2 - (t1 + p3)\<bar> \<le> 1 / 2 ^ 47"
    by auto
  from to_double_error [of "t2 + p4" 100] t2 p4 obtain S where
    S: "to_double (t2 + p4) = Fin S" "0 \<le> S" "S \<le> 100" "\<bar>S - (t2 + p4)\<bar> \<le> 1 / 2 ^ 47"
    by auto
  have run: "weightedSum \<lparr>accuracy = Fin a, efficiency = Fin e, maintainability = Fin m,
            speed = Fin s\<rparr> = Fin S"
    by (simp add: weightedSum_def WEIGHTS_values w35_def [symmetric] w15_def [symmetric]
        p1(1) p2(1) p3(1) p4(1) t1(1) t2(1) S(1))
  define d :: rat where "d = 1 / 2 ^ 47"
  define A where "A = a * w35"
  define A0 where "A0 = a * (35 / 100)"
  define E0 where "E0 = e * (25 / 100)"
  define M0 where "M0 = m * (25 / 100)"
  define Z where "Z = s * w15"
  define Z0 where "Z0 = s * (15 / 100)"
  have wa: "0 \<le> A0 - A" "A0 - A \<le> d"
    using a by (simp_all add: w35_def A_def A0_def d_def)
  have ws: "0 \<le> Z0 - Z" "Z0 - Z \<le> d"
    using s by (simp_all add: w15_def Z_def Z0_def d_def)
  have q2: "e / 4 = E0" "m / 4 = M0" by (simp_all add: E0_def M0_def)
  have b1: "p1 - A \<le> d" "A - p1 \<le> d"
    using abs_diff_bounds [OF p1(4)] by (simp_all only: d_def A_def)
  have b2: "p2 - E0 \<le> d" "E0 - p2 \<le> d"
    using abs_diff_bounds [OF p2(4)] by (simp_all only: d_def q2)
  have b3: "p3 - M0 \<le> d" "M0 - p3 \<le> d"
    using abs_diff_bounds [OF p3(4)] by (simp_all only: d_def q2)
  have b4: "p4 - Z \<le> d" "Z - p4 \<le> d"
    using abs_diff_bounds [OF p4(4)] by (simp_all only: d_def Z_def)
  have b5: "t1 - (p1 + p2) \<le> d" "(p1 + p2) - t1 \<le> d"
    using abs_diff_bounds [OF t1(4)] by (simp_all only: d_def)
  have b6: "t2 - (t1 + p3) \<le> d" "(t1 + p3) - t2 \<le> d"
    using abs_diff_bounds [OF t2(4)] by (simp_all only: d_def)
  have b7: "S - (t2 + p4) \<le> d" "(t2 + p4) - S \<le> d"
    using abs_diff_bounds [OF S(4)] by (simp_all only: d_def)
  have c1: "A0 - p1 \<le> 2 * d" "p1 - A0 \<le> d" using wa b1 by linarith+
  have c4: "Z0 - p4 \<le> 2 * d" "p4 - Z0 \<le> d" using ws b4 by linarith+
  have c5: "S - (p1 + p2 + p3 + p4) \<le> 3 * d" "(p1 + p2 + p3 + p4) - S \<le> 3 * d"
    using b5 b6 b7 by linarith+
  have c6: "(p1 + p2 + p3 + p4) - (A0 + E0 + M0 + Z0) \<le> 4 * d"
    using c1(2) b2(1) b3(1) c4(2) by linarith
  have c7: "(A0 + E0 + M0 + Z0) - (p1 + p2 + p3 + p4) \<le> 6 * d"
    using c1(1) b2(2) b3(2) c4(1) by linarith
  have dpos: "0 \<le> d" by (simp add: d_def)
  have "S - (A0 + E0 + M0 + Z0) \<le> 16 * d" "(A0 + E0 + M0 + Z0) - S \<le> 16 * d"
    using c5 c6 c7 dpos by linarith+
  then have "\<bar>S - (A0 + E0 + M0 + Z0)\<bar> \<le> 16 * d"
    by (simp add: abs_le_iff)
  moreover have "16 * d = 1 / 2 ^ 43" by (simp add: d_def)
  ultimately have "\<bar>S - exact_weighted_sum a e m s\<bar> \<le> 1 / 2 ^ 43"
    by (simp only: exact_weighted_sum_def A0_def E0_def M0_def Z0_def)
  with run S show ?thesis by blast
qed


lemma half_up_near:
  fixes X :: rat and N :: int
  assumes near: "\<bar>X - of_int N / 20\<bar> \<le> 1 / 2 ^ 43"
  shows "\<lfloor>X\<rfloor> = N div 20 \<or> (20 dvd N \<and> \<lfloor>X\<rfloor> = N div 20 - 1)"
proof -
  define K where "K = N div 20"
  define j where "j = N mod 20"
  have N: "N = 20 * K + j" by (simp add: K_def j_def)
  have j: "0 \<le> j" "j < 20" by (simp_all add: j_def)
  have T: "(of_int N :: rat) / 20 = of_int K + of_int j / 20"
    by (simp add: N)
  define dl :: rat where "dl = 1 / 2 ^ 43"
  have dl: "0 < dl" "dl < 1 / 20" by (simp_all add: dl_def)
  from abs_diff_bounds [OF near] have lo: "of_int K + of_int j / 20 - dl \<le> X"
    and hi: "X \<le> of_int K + of_int j / 20 + dl"
    unfolding T dl_def by linarith+
  show ?thesis
  proof (cases "j = 0")
    case True
    then have dvd: "20 dvd N" by (simp add: N)
    show ?thesis
    proof (cases "of_int K \<le> X")
      case True
      from hi \<open>j = 0\<close> dl have "X < of_int K + 1" by simp
      with True have "\<lfloor>X\<rfloor> = K" by (simp add: floor_unique)
      then show ?thesis by (simp add: K_def)
    next
      case False
      then have "X < of_int (K - 1) + 1" by simp
      moreover from lo \<open>j = 0\<close> dl have "of_int (K - 1) \<le> X" by simp
      ultimately have "\<lfloor>X\<rfloor> = K - 1" by (rule floor_unique [rotated])
      with dvd show ?thesis by (simp add: K_def)
    qed
  next
    case False
    with j have "1 \<le> j" "j \<le> 19" by simp_all
    then have jr: "(1::rat) \<le> of_int j" "(of_int j :: rat) \<le> 19"
      by simp_all
    from lo jr dl have "of_int K \<le> X" by linarith
    moreover from hi jr dl have "X < of_int K + 1" by linarith
    ultimately have "\<lfloor>X\<rfloor> = K" by (rule floor_unique)
    then show ?thesis by (simp add: K_def)
  qed
qed

lemma exact_weighted_sum_int:
  "exact_weighted_sum (of_int i1) (of_int i2) (of_int i3) (of_int i4) + 1 / 2
     = of_int (7 * i1 + 5 * i2 + 5 * i3 + 3 * i4 + 10) / 20"
  by (simp add: exact_weighted_sum_def)

lemma round_half_up_int:
  "round_half_up (exact_weighted_sum (of_int i1) (of_int i2) (of_int i3) (of_int i4))
     = (7 * i1 + 5 * i2 + 5 * i3 + 3 * i4 + 10) div 20"
  unfolding round_half_up_def exact_weighted_sum_int
  using floor_divide_of_int_eq [of "7 * i1 + 5 * i2 + 5 * i3 + 3 * i4 + 10" 20, where ?'a = rat]
  by simp

lemma calculate_rationals:
  assumes a: "0 \<le> a" "a \<le> 100" and e: "0 \<le> e" "e \<le> 100"
    and m: "0 \<le> m" "m \<le> 100" and s: "0 \<le> s" "s \<le> 100"
  shows "\<exists>S. js_add (js_add (js_add
             (js_mul (Fin a) (to_double (35 / 100)))
             (js_mul (Fin e) (to_double (25 / 100))))
             (js_mul (Fin m) (to_double (25 / 100))))
             (js_mul (Fin s) (to_double (15 / 100))) = Fin S
          \<and> \<bar>S - exact_weighted_sum a e m s\<bar> \<le> 1 / 2 ^ 43
          \<and> calculate \<lparr>accuracy = Fin a, efficiency = Fin e, maintainability = Fin m,
                speed = Fin s\<rparr> = Inr \<lparr>score_value = Fin (of_int (round_half_up S))\<rparr>"
proof -
  let ?M = "\<lparr>accuracy = Fin a, efficiency = Fin e, maintainability = Fin m, speed = Fin s\<rparr>"
  from weightedSum_error [OF assms] obtain S where
    S: "weightedSum ?M = Fin S" "\<bar>S - exact_weighted_sum a e m s\<bar> \<le> 1 / 2 ^ 43"
    by blast
  have r: "in_0_100 (accuracy ?M)" "in_0_100 (efficiency ?M)" "in_0_100 (maintainability ?M)"
    "in_0_100 (speed ?M)"
    using assms by (simp_all add: in_0_100_def)
  have "calculate ?M = Inr \<lparr>score_value = Math_round (weightedSum ?M)\<rparr>"
    by (rule calculate_in_range [OF r])
  then have c: "calculate ?M = Inr \<lparr>score_value = Fin (of_int (round_half_up S))\<rparr>"
    by (simp add: S(1) round_half_up_def)
  have "js_add (js_add (js_add
             (js_mul (Fin a) (to_double (35 / 100)))
             (js_mul (Fin e) (to_double (25 / 100))))
             (js_mul (Fin m) (to_double (25 / 100))))
             (js_mul (Fin s) (to_double (15 / 100))) = weightedSum ?M"
    by (simp only: weightedSum_def WEIGHTS_accuracy_def WEIGHTS_efficiency_def
        WEIGHTS_maintainability_def WEIGHTS_speed_def Metrics.simps)
  with S c show ?thesis by simp
qed

lemma calculate_integers:
  assumes "0 \<le> i1" "i1 \<le> 100" "0 \<le> i2" "i2 \<le> 100" "0 \<le> i3" "i3 \<le> 100"
    "0 \<le> i4" "i4 \<le> 100"
  shows "calculate \<lparr>accuracy = Fin (of_int i1), efficiency = Fin (of_int i2),
            maintainability = Fin (of_int i3), speed = Fin (of_int i4)\<rparr>
          = Inr \<lparr>score_value = Fin (of_int ((7 * i1 + 5 * i2 + 5 * i3 + 3 * i4 + 10) div 20))\<rparr>
       \<or> (20 dvd (7 * i1 + 5 * i2 + 5 * i3 + 3 * i4 + 10)
          \<and> calculate \<lparr>accuracy = Fin (of_int i1), efficiency = Fin (of_int i2),
            maintainability = Fin (of_int i3), speed = Fin (of_int i4)\<rparr>
          = Inr \<lparr>score_value =
              Fin (of_int ((7 * i1 + 5 * i2 + 5 * i3 + 3 * i4 + 10) div 20 - 1))\<rparr>)"
proof -
  have r: "(0::rat) \<le> of_int i1" "(of_int i1 :: rat) \<le> 100" "(0::rat) \<le> of_int i2"
    "(of_int i2 :: rat) \<le> 100" "(0::rat) \<le> of_int i3" "(of_int i3 :: rat) \<le> 100"
    "(0::rat) \<le> of_int i4" "(of_int i4 :: rat) \<le> 100"
    using assms by simp_all
  from calculate_rationals [OF r] obtain S where
    S: "\<bar>S - exact_weighted_sum (of_int i1) (of_int i2) (of_int i3) (of_int i4)\<bar> \<le> 1 / 2 ^ 43"
    and c: "calculate \<lparr>accuracy = Fin (of_int i1), efficiency = Fin (of_int i2),
            maintainability = Fin (of_int i3), speed = Fin (of_int i4)\<rparr>
          = Inr \<lparr>score_value = Fin (of_int (round_half_up S))\<rparr>"
    by blast
  have "S + 1 / 2 - of_int (7 * i1 + 5 * i2 + 5 * i3 + 3 * i4 + 10) / 20
      = S - exact_weighted_sum (of_int i1) (of_int i2) (of_int i3) (of_int i4)"
    unfolding exact_weighted_sum_int [symmetric] by (simp only: diff_add_eq add_diff_cancel_right)
  with S have "\<bar>S + 1 / 2 - of_int (7 * i1 + 5 * i2 + 5 * i3 + 3 * i4 + 10) / 20\<bar>
      \<le> 1 / 2 ^ 43"
    by (simp only:)
  from half_up_near [OF this] c show ?thesis
    by (auto simp add: round_half_up_def)
qed

lemma js_NaN:
  "js_mul NaN y = NaN" "js_mul x NaN = NaN" "js_add NaN y = NaN" "js_add x NaN = NaN"
  by (cases y; simp) (cases x; simp)+


lemma calculate_MetricOutOfRange_iff:
  "(calculate mt = Inl MetricOutOfRange)
     = (outside_0_100 (accuracy mt) \<or> outside_0_100 (efficiency mt)
        \<or> outside_0_100 (maintainability mt) \<or> outside_0_100 (speed mt))"
  by (auto simp add: calculate_def outside_0_100_def new_Score_def)

lemma calculate_NaN_metric:
  assumes "\<not> outside_0_100 (accuracy mt)" "\<not> outside_0_100 (efficiency mt)"
    "\<not> outside_0_100 (maintainability mt)" "\<not> outside_0_100 (speed mt)"
    and "accuracy mt = NaN \<or> efficiency mt = NaN \<or> maintainability mt = NaN \<or> speed mt = NaN"
  shows "calculate mt = Inr \<lparr>score_value = NaN\<rparr>"
proof -
  from assms(5) have "weightedSum mt = NaN"
    by (auto simp add: weightedSum_def js_NaN)
  with assms(1-4) show ?thesis
    by (simp add: calculate_def outside_0_100_def new_Score_def js_gt_def)
qed

lemma weight_literals:
  "to_double (35 / 100) = Fin (3152519739159347 / 9007199254740992)"
  "to_double (25 / 100) = Fin (1 / 4)"
  "to_double (15 / 100) = Fin (5404319552844595 / 36028797018963968)"
  using WEIGHTS_values
  by (simp_all only: WEIGHTS_accuracy_def WEIGHTS_efficiency_def WEIGHTS_speed_def)

lemma calculate_examples:
  "calculate \<lparr>accuracy = Fin 100, efficiency = Fin 80, maintainability = Fin 90,
      speed = Fin 70\<rparr> = Inr \<lparr>score_value = Fin 88\<rparr>"
  "calculate \<lparr>accuracy = Fin 0, efficiency = Fin 0, maintainability = Fin 0,
      speed = Fin 0\<rparr> = Inr \<lparr>score_value = Fin 0\<rparr>"
  "calculate \<lparr>accuracy = Fin 100, efficiency = Fin 100, maintainability = Fin 100,
      speed = Fin 100\<rparr> = Inr \<lparr>score_value = Fin 100\<rparr>"
  "calculate \<lparr>accuracy = Fin 85, efficiency = Fin 75, maintainability = Fin 82,
      speed = Fin 90\<rparr> = Inr \<lparr>score_value = Fin 83\<rparr>"
  by (simp_all add: calculate_def new_Score_def js_gt_def weightedSum_def WEIGHTS_values
      fl_eval)

lemma weightedSum_85_75_82_90:
  "weightedSum \<lparr>accuracy = Fin 85, efficiency = Fin 75, maintainability = Fin 82,
      speed = Fin 90\<rparr> = Fin (165 / 2)"
  by (simp add: weightedSum_def WEIGHTS_values fl_eval)

lemma tie_1_0_0_41:
  "exact_weighted_sum 1 0 0 41 = 13 / 2"
  "round_half_up (exact_weighted_sum 1 0 0 41) = 7"
  "weightedSum \<lparr>accuracy = Fin 1, efficiency = Fin 0, maintainability = Fin 0,
      speed = Fin 41\<rparr> = Fin (7318349394477055 / 1125899906842624)"
  "calculate \<lparr>accuracy = Fin 1, efficiency = Fin 0, maintainability = Fin 0,
      speed = Fin 41\<rparr> = Inr \<lparr>score_value = Fin 6\<rparr>"
  by (simp_all add: exact_weighted_sum_def round_half_up_def calculate_def new_Score_def
      js_gt_def weightedSum_def WEIGHTS_values fl_eval)

lemma calculate_NaN:
  "calculate \<lparr>accuracy = NaN, efficiency = Fin 80, maintainability = Fin 80,
      speed = Fin 80\<rparr> = Inr \<lparr>score_value = NaN\<rparr>"
  by (simp add: calculate_def new_Score_def js_gt_def weightedSum_def)

lemma literal_1_05_value: "literal_1_05 = Fin (4728779608739021 / 4503599627370496)"
  by (simp add: literal_1_05_def fl_eval)

lemma addBonus_examples:
  "addBonus \<lparr>score_value = Fin 80\<rparr> \<lparr>bonus_type = NO_HINTS, multiplier = literal_1_05\<rparr>
     = Inr \<lparr>score_value = Fin 84\<rparr>"
  "addBonus \<lparr>score_value = Fin 84\<rparr> \<lparr>bonus_type = NO_ANTIPATTERNS, multiplier = literal_1_05\<rparr>
     = Inr \<lparr>score_value = Fin 88\<rparr>"
  "js_mul (Fin 84) literal_1_05 = Fin (6206523236469965 / 70368744177664)"
  "addBonus \<lparr>score_value = Fin 100\<rparr> \<lparr>bonus_type = NO_HINTS, multiplier = literal_1_05\<rparr>
     = Inl ScoreOutOfRange"
  "js_mul (Fin 100) literal_1_05 = Fin 105"
  "js_mul (Fin 80) literal_1_05 = Fin 84"
  by (simp_all add: addBonus_def new_Score_def js_gt_def literal_1_05_value fl_eval)

section \<open>The weighted composite score\<close>

text \<open>
  C3, as stated, fails: the metrics {1,0,0,41} all lie in [0,100] and their weighted sum
  is 0.35 + 6.15 = 6.5, which rounds half up to 7; \<open>calculate\<close> returns 6, because the
  sum it rounds is the binary64 sum, which lies just below 6.5.
\<close>

theorem calculate_half_up_counterexample:
  "in_0_100 (Fin 1) \<and> in_0_100 (Fin 0) \<and> in_0_100 (Fin 41)
   \<and> exact_weighted_sum 1 0 0 41 = 13 / 2
   \<and> round_half_up (exact_weighted_sum 1 0 0 41) = 7
   \<and> calculate \<lparr>accuracy = Fin 1, efficiency = Fin 0, maintainability = Fin 0,
        speed = Fin 41\<rparr> = Inr \<lparr>score_value = Fin 6\<rparr>"
proof -
  have "in_0_100 (Fin 1)" "in_0_100 (Fin 0)" "in_0_100 (Fin 41)"
    by (simp_all add: in_0_100_def)
  with tie_1_0_0_41(1,2,4) show ?thesis by (intro conjI)
qed

text \<open>
  C3, amended. For metrics that are numbers in [0,100], \<open>calculate\<close> returns the \<open>Score\<close>
  whose value is \<open>Math.round\<close> (rounding half up) of the binary64 sum
  \<open>accuracy * 0.35 + efficiency * 0.25 + maintainability * 0.25 + speed * 0.15\<close>: the
  weights are the doubles nearest to the four decimals, each product and each sum is
  rounded to the nearest double, the sums are taken from left to right. This sum is a
  finite number within \<open>2 ^ - 43\<close> of the exact weighted sum. So for integer metrics the
  result is the exact weighted sum rounded half up, except that it may be one less when
  the exact sum is a half-integer (that is when 20 divides
  \<open>7 * accuracy + 5 * efficiency + 5 * maintainability + 3 * speed + 10\<close>). The metrics
  {100,80,90,70} give 88, {0,0,0,0} give 0, {100,100,100,100} give 100, {85,75,82,90} give
  83 (the binary64 sum is 82.5), and {1,0,0,41} give a binary64 sum below 6.5.
  \<open>calculate\<close> throws the out-of-range error exactly when one of the two comparisons of
  the code holds of some metric, below 0 or above 100. A metric that is NaN passes both
  comparisons: if no metric is below 0 or above 100 and one is NaN, the result is a \<open>Score\<close>
  that holds NaN.
\<close>

theorem calculate_binary64_score:
  "(0 \<le> a \<and> a \<le> 100 \<and> 0 \<le> e \<and> e \<le> 100 \<and> 0 \<le> m \<and> m \<le> 100 \<and> 0 \<le> s \<and> s \<le> 100
      \<longrightarrow> (\<exists>S. js_add (js_add (js_add
                   (js_mul (Fin a) (to_double (35 / 100)))
                   (js_mul (Fin e) (to_double (25 / 100))))
                   (js_mul (Fin m) (to_double (25 / 100))))
                   (js_mul (Fin s) (to_double (15 / 100))) = Fin S
                \<and> \<bar>S - exact_weighted_sum a e m s\<bar> \<le> 1 / 2 ^ 43
                \<and> calculate \<lparr>accuracy = Fin a, efficiency = Fin e, maintainability = Fin m,
                     speed = Fin s\<rparr> = Inr \<lparr>score_value = Fin (of_int (round_half_up S))\<rparr>))
   \<and> (0 \<le> i1 \<and> i1 \<le> 100 \<and> 0 \<le> i2 \<and> i2 \<le> 100 \<and> 0 \<le> i3 \<and> i3 \<le> 100
        \<and> 0 \<le> i4 \<and> i4 \<le> 100
      \<longrightarrow> calculate \<lparr>accuracy = Fin (of_int i1), efficiency = Fin (of_int i2),
             maintainability = Fin (of_int i3), speed = Fin (of_int i4)\<rparr>
           = Inr \<lparr>score_value =
               Fin (of_int ((7 * i1 + 5 * i2 + 5 * i3 + 3 * i4 + 10) div 20))\<rparr>
        \<or> (20 dvd (7 * i1 + 5 * i2 + 5 * i3 + 3 * i4 + 10)
            \<and> calculate \<lparr>accuracy = Fin (of_int i1), efficiency = Fin (of_int i2),
                 maintainability = Fin (of_int i3), speed = Fin (of_int i4)\<rparr>
               = Inr \<lparr>score_value =
                   Fin (of_int ((7 * i1 + 5 * i2 + 5 * i3 + 3 * i4 + 10) div 20 - 1))\<rparr>))
   \<and> round_half_up (exact_weighted_sum (of_int i1) (of_int i2) (of_int i3) (of_int i4))
       = (7 * i1 + 5 * i2 + 5 * i3 + 3 * i4 + 10) div 20
   \<and> (calculate mt = Inl MetricOutOfRange)
       = (outside_0_100 (accuracy mt) \<or> outside_0_100 (efficiency mt)
          \<or> outside_0_100 (maintainability mt) \<or> outside_0_100 (speed mt))
   \<and> (\<not> outside_0_100 (accuracy mt) \<and> \<not> outside_0_100 (efficiency mt)
        \<and> \<not> outside_0_100 (maintainability mt) \<and> \<not> outside_0_100 (speed mt)
        \<and> (accuracy mt = NaN \<or> efficiency mt = NaN \<or> maintainability mt = NaN
            \<or> speed mt = NaN)
      \<longrightarrow> calculate mt = Inr \<lparr>score_value = NaN\<rparr>)
   \<and> to_double (35 / 100) = Fin (3152519739159347 / 9007199254740992)
   \<and> to_double (25 / 100) = Fin (1 / 4)
   \<and> to_double (15 / 100) = Fin (5404319552844595 / 36028797018963968)
   \<and> calculate \<lparr>accuracy = Fin 100, efficiency = Fin 80, maintainability = Fin 90,
        speed = Fin 70\<rparr> = Inr \<lparr>score_value = Fin 88\<rparr>
   \<and> calculate \<lparr>accuracy = Fin 0, efficiency = Fin 0, maintainability = Fin 0,
        speed = Fin 0\<rparr> = Inr \<lparr>score_value = Fin 0\<rparr>
   \<and> calculate \<lparr>accuracy = Fin 100, efficiency = Fin 100, maintainability = Fin 100,
        speed = Fin 100\<rparr> = Inr \<lparr>score_value = Fin 100\<rparr>
   \<and> calculate \<lparr>accuracy = Fin 85, efficiency = Fin 75, maintainability = Fin 82,
        speed = Fin 90\<rparr> = Inr \<lparr>score_value = Fin 83\<rparr>
   \<and> weightedSum \<lparr>accuracy = Fin 85, efficiency = Fin 75, maintainability = Fin 82,
        speed = Fin 90\<rparr> = Fin (165 / 2)
   \<and> weightedSum \<lparr>accuracy = Fin 1, efficiency = Fin 0, maintainability = Fin 0,
        speed = Fin 41\<rparr> = Fin (7318349394477055 / 1125899906842624)"
proof -
  have a: "0 \<le> a \<and> a \<le> 100 \<and> 0 \<le> e \<and> e \<le> 100 \<and> 0 \<le> m \<and> m \<le> 100 \<and> 0 \<le> s \<and> s \<le> 100
      \<longrightarrow> (\<exists>S. js_add (js_add (js_add
                   (js_mul (Fin a) (to_double (35 / 100)))
                   (js_mul (Fin e) (to_double (25 / 100))))
                   (js_mul (Fin m) (to_double (25 / 100))))
                   (js_mul (Fin s) (to_double (15 / 100))) = Fin S
                \<and> \<bar>S - exact_weighted_sum a e m s\<bar> \<le> 1 / 2 ^ 43
                \<and> calculate \<lparr>accuracy = Fin a, efficiency = Fin e, maintainability = Fin m,
                     speed = Fin s\<rparr> = Inr \<lparr>score_value = Fin (of_int (round_half_up S))\<rparr>)"
    using calculate_rationals [of a e m s] by blast
  have b: "0 \<le> i1 \<and> i1 \<le> 100 \<and> 0 \<le> i2 \<and> i2 \<le> 100 \<and> 0 \<le> i3 \<and> i3 \<le> 100
        \<and> 0 \<le> i4 \<and> i4 \<le> 100
      \<longrightarrow> calculate \<lparr>accuracy = Fin (of_int i1), efficiency = Fin (of_int i2),
             maintainability = Fin (of_int i3), speed = Fin (of_int i4)\<rparr>
           = Inr \<lparr>score_value =
               Fin (of_int ((7 * i1 + 5 * i2 + 5 * i3 + 3 * i4 + 10) div 20))\<rparr>
        \<or> (20 dvd (7 * i1 + 5 * i2 + 5 * i3 + 3 * i4 + 10)
            \<and> calculate \<lparr>accuracy = Fin (of_int i1), efficiency = Fin (of_int i2),
                 maintainability = Fin (of_int i3), speed = Fin (of_int i4)\<rparr>
               = Inr \<lparr>score_value =
                   Fin (of_int ((7 * i1 + 5 * i2 + 5 * i3 + 3 * i4 + 10) div 20 - 1))\<rparr>)"
    using calculate_integers [of i1 i2 i3 i4] by blast
  have c: "\<not> outside_0_100 (accuracy mt) \<and> \<not> outside_0_100 (efficiency mt)
        \<and> \<not> outside_0_100 (maintainability mt) \<and> \<not> outside_0_100 (speed mt)
        \<and> (accuracy mt = NaN \<or> efficiency mt = NaN \<or> maintainability mt = NaN
            \<or> speed mt = NaN)
      \<longrightarrow> calculate mt = Inr \<lparr>score_value = NaN\<rparr>"
    using calculate_NaN_metric [of mt] by blast
  from a b round_half_up_int [of i1 i2 i3 i4] calculate_MetricOutOfRange_iff [of mt] c
    weight_literals calculate_examples weightedSum_85_75_82_90 tie_1_0_0_41(3)
  show ?thesis by (intro conjI)
qed

theorem calculate_binary64_score_witness:
  "(\<exists>S. js_add (js_add (js_add
            (js_mul (Fin 85) (to_double (35 / 100)))
            (js_mul (Fin 75) (to_double (25 / 100))))
            (js_mul (Fin 82) (to_double (25 / 100))))
            (js_mul (Fin 90) (to_double (15 / 100))) = Fin S
         \<and> \<bar>S - exact_weighted_sum 85 75 82 90\<bar> \<le> 1 / 2 ^ 43
         \<and> calculate \<lparr>accuracy = Fin 85, efficiency = Fin 75, maintainability = Fin 82,
              speed = Fin 90\<rparr> = Inr \<lparr>score_value = Fin (of_int (round_half_up S))\<rparr>)
   \<and> 20 dvd (7 * 1 + 5 * 0 + 5 * 0 + 3 * 41 + 10 :: int)
   \<and> calculate \<lparr>accuracy = Fin (of_int 1), efficiency = Fin (of_int 0),
        maintainability = Fin (of_int 0), speed = Fin (of_int 41)\<rparr>
       = Inr \<lparr>score_value = Fin (of_int ((7 * 1 + 5 * 0 + 5 * 0 + 3 * 41 + 10) div 20 - 1))\<rparr>
   \<and> outside_0_100 (Fin (- 10)) \<and> outside_0_100 (Fin 110)
   \<and> calculate \<lparr>accuracy = Fin (- 10), efficiency = Fin 80, maintainability = Fin 80,
        speed = Fin 80\<rparr> = Inl MetricOutOfRange
   \<and> calculate \<lparr>accuracy = Fin 80, efficiency = Fin 80, maintainability = Fin 80,
        speed = Fin 110\<rparr> = Inl MetricOutOfRange
   \<and> calculate \<lparr>accuracy = NaN, efficiency = Fin 80, maintainability = Fin 80,
        speed = Fin 80\<rparr> = Inr \<lparr>score_value = NaN\<rparr>"
proof -
  have r: "(0::rat) \<le> 85 \<and> (85::rat) \<le> 100 \<and> (0::rat) \<le> 75 \<and> (75::rat) \<le> 100
      \<and> (0::rat) \<le> 82 \<and> (82::rat) \<le> 100 \<and> (0::rat) \<le> 90 \<and> (90::rat) \<le> 100"
    by simp
  have i: "(0::int) \<le> 1 \<and> (1::int) \<le> 100 \<and> (0::int) \<le> 0 \<and> (0::int) \<le> 100
      \<and> (0::int) \<le> 0 \<and> (0::int) \<le> 100 \<and> (0::int) \<le> 41 \<and> (41::int) \<le> 100"
    by simp
  have o: "outside_0_100 (Fin (- 10))" "outside_0_100 (Fin 110)"
    by (simp_all add: outside_0_100_def js_gt_def)
  have n: "\<not> outside_0_100 NaN" "\<not> outside_0_100 (Fin 80)"
    by (simp_all add: outside_0_100_def js_gt_def)
  have d: "20 dvd (7 * 1 + 5 * 0 + 5 * 0 + 3 * 41 + 10 :: int)"
    by simp
  note T = calculate_binary64_score
  from r T [of 85 75 82 90 0 0 0 0 "\<lparr>accuracy = Fin 0, efficiency = Fin 0,
      maintainability = Fin 0, speed = Fin 0\<rparr>"]
  have one: "\<exists>S. js_add (js_add (js_add
            (js_mul (Fin 85) (to_double (35 / 100)))
            (js_mul (Fin 75) (to_double (25 / 100))))
            (js_mul (Fin 82) (to_double (25 / 100))))
            (js_mul (Fin 90) (to_double (15 / 100))) = Fin S
         \<and> \<bar>S - exact_weighted_sum 85 75 82 90\<bar> \<le> 1 / 2 ^ 43
         \<and> calculate \<lparr>accuracy = Fin 85, efficiency = Fin 75, maintainability = Fin 82,
              speed = Fin 90\<rparr> = Inr \<lparr>score_value = Fin (of_int (round_half_up S))\<rparr>"
    by blast
  have six: "calculate \<lparr>accuracy = Fin (of_int 1), efficiency = Fin (of_int 0),
        maintainability = Fin (of_int 0), speed = Fin (of_int 41)\<rparr>
       \<noteq> Inr \<lparr>score_value = Fin (of_int ((7 * 1 + 5 * 0 + 5 * 0 + 3 * 41 + 10) div 20))\<rparr>"
    using tie_1_0_0_41(4) by simp
  from i six T [of 0 0 0 0 1 0 0 41 "\<lparr>accuracy = Fin 0, efficiency = Fin 0,
      maintainability = Fin 0, speed = Fin 0\<rparr>"]
  have two: "calculate \<lparr>accuracy = Fin (of_int 1), efficiency = Fin (of_int 0),
        maintainability = Fin (of_int 0), speed = Fin (of_int 41)\<rparr>
       = Inr \<lparr>score_value = Fin (of_int ((7 * 1 + 5 * 0 + 5 * 0 + 3 * 41 + 10) div 20 - 1))\<rparr>"
    by blast
  from o(1) T [of 0 0 0 0 0 0 0 0 "\<lparr>accuracy = Fin (- 10), efficiency = Fin 80,
      maintainability = Fin 80, speed = Fin 80\<rparr>"]
  have three: "calculate \<lparr>accuracy = Fin (- 10), efficiency = Fin 80, maintainability = Fin 80,
        speed = Fin 80\<rparr> = Inl MetricOutOfRange"
    by simp
  from o(2) T [of 0 0 0 0 0 0 0 0 "\<lparr>accuracy = Fin 80, efficiency = Fin 80,
      maintainability = Fin 80, speed = Fin 110\<rparr>"]
  have four: "calculate \<lparr>accuracy = Fin 80, efficiency = Fin 80, maintainability = Fin 80,
        speed = Fin 110\<rparr> = Inl MetricOutOfRange"
    by simp
  from n T [of 0 0 0 0 0 0 0 0 "\<lparr>accuracy = NaN, efficiency = Fin 80,
      maintainability = Fin 80, speed = Fin 80\<rparr>"]
  have five: "calculate \<lparr>accuracy = NaN, efficiency = Fin 80, maintainability = Fin 80,
        speed = Fin 80\<rparr> = Inr \<lparr>score_value = NaN\<rparr>"
    by simp
  from one d two o three four five show ?thesis by (intro conjI)
qed

section \<open>Bonuses\<close>

lemma addBonus_value:
  "addBonus s b = Inr s' \<Longrightarrow> score_value s' = Math_round (js_mul (score_value s) (multiplier b))"
  by (auto simp add: addBonus_def new_Score_def Let_def split: if_splits)

text \<open>
  C8. \<open>addBonus\<close> gives the constructor \<open>Math.round(value * multiplier)\<close>, so the
  \<open>Score\<close> it returns has that value; a chain applies the bonuses from left to right,
  each on the rounded result of the one before. A \<open>Score\<close> of 80 with two bonuses of
  multiplier 1.05 becomes 84, then 88: the second product is the number 88.2, which rounds
  to 88.
\<close>

theorem addBonus_sequential:
  "addBonus s b = new_Score (Math_round (js_mul (score_value s) (multiplier b)))
   \<and> (\<forall>s'. addBonus s b = Inr s'
        \<longrightarrow> score_value s' = Math_round (js_mul (score_value s) (multiplier b)))
   \<and> addBonuses s (b # bs)
       = (case addBonus s b of Inl e \<Rightarrow> Inl e | Inr s' \<Rightarrow> addBonuses s' bs)
   \<and> addBonus \<lparr>score_value = Fin 80\<rparr> \<lparr>bonus_type = NO_HINTS, multiplier = literal_1_05\<rparr>
       = Inr \<lparr>score_value = Fin 84\<rparr>
   \<and> js_mul (Fin 84) literal_1_05 = Fin (6206523236469965 / 70368744177664)
   \<and> Math_round (Fin (6206523236469965 / 70368744177664)) = Fin 88
   \<and> addBonuses \<lparr>score_value = Fin 80\<rparr>
        [\<lparr>bonus_type = NO_HINTS, multiplier = literal_1_05\<rparr>,
         \<lparr>bonus_type = NO_ANTIPATTERNS, multiplier = literal_1_05\<rparr>]
       = Inr \<lparr>score_value = Fin 88\<rparr>"
proof -
  have a: "addBonus s b = new_Score (Math_round (js_mul (score_value s) (multiplier b)))"
    by (simp add: addBonus_def)
  have b: "\<forall>s'. addBonus s b = Inr s'
        \<longrightarrow> score_value s' = Math_round (js_mul (score_value s) (multiplier b))"
    by (simp add: addBonus_value)
  have c: "addBonuses s (b # bs)
       = (case addBonus s b of Inl e \<Rightarrow> Inl e | Inr s' \<Rightarrow> addBonuses s' bs)"
    by simp
  have d: "Math_round (Fin (6206523236469965 / 70368744177664)) = Fin 88"
    by (simp add: floor_rat_numeral)
  have e: "addBonuses \<lparr>score_value = Fin 80\<rparr>
        [\<lparr>bonus_type = NO_HINTS, multiplier = literal_1_05\<rparr>,
         \<lparr>bonus_type = NO_ANTIPATTERNS, multiplier = literal_1_05\<rparr>]
       = Inr \<lparr>score_value = Fin 88\<rparr>"
    by (simp add: addBonus_examples(1,2))
  from a b c d e addBonus_examples(1,3) show ?thesis
    by (intro conjI)
qed

theorem addBonus_sequential_witness:
  "addBonus \<lparr>score_value = Fin 80\<rparr> \<lparr>bonus_type = NO_HINTS, multiplier = literal_1_05\<rparr>
     = Inr \<lparr>score_value = Fin 84\<rparr>
   \<and> Fin 84 = Math_round (js_mul (Fin 80) literal_1_05)"
proof -
  note t = addBonus_sequential [of "\<lparr>score_value = Fin 80\<rparr>"
      "\<lparr>bonus_type = NO_HINTS, multiplier = literal_1_05\<rparr>" "[]"]
  from t have run: "addBonus \<lparr>score_value = Fin 80\<rparr>
      \<lparr>bonus_type = NO_HINTS, multiplier = literal_1_05\<rparr> = Inr \<lparr>score_value = Fin 84\<rparr>"
    by blast
  from t have "\<forall>s'. addBonus \<lparr>score_value = Fin 80\<rparr>
      \<lparr>bonus_type = NO_HINTS, multiplier = literal_1_05\<rparr> = Inr s'
        \<longrightarrow> score_value s' = Math_round (js_mul (score_value \<lparr>score_value = Fin 80\<rparr>)
              (multiplier \<lparr>bonus_type = NO_HINTS, multiplier = literal_1_05\<rparr>))"
    by blast
  with run have "score_value \<lparr>score_value = Fin 84\<rparr>
      = Math_round (js_mul (score_value \<lparr>score_value = Fin 80\<rparr>)
              (multiplier \<lparr>bonus_type = NO_HINTS, multiplier = literal_1_05\<rparr>))"
    by blast
  then have "Fin 84 = Math_round (js_mul (Fin 80) literal_1_05)"
    by (simp del: js_mul.simps Math_round.simps)
  with run show ?thesis by (intro conjI)
qed

lemma new_Score_rejects:
  "(new_Score v = Inl ScoreOutOfRange) = (js_lt v (Fin 0) \<or> js_gt v (Fin 100))"
  by (simp add: new_Score_def)

text \<open>
  C10. The constructor of \<open>Score\<close> throws for a value below 0 or above 100 and
  \<open>addBonus\<close> does not clamp: when \<open>Math.round(value * multiplier)\<close> is above 100, the
  call throws instead of returning a \<open>Score\<close> of 100. A \<open>Score\<close> of 100 with the
  multiplier 1.05 gives 105 and throws.
\<close>

theorem addBonus_above_100_throws:
  "(new_Score v = Inl ScoreOutOfRange) = (js_lt v (Fin 0) \<or> js_gt v (Fin 100))
   \<and> (js_gt (Math_round (js_mul (score_value s) (multiplier b))) (Fin 100)
        \<longrightarrow> addBonus s b = Inl ScoreOutOfRange)
   \<and> Math_round (js_mul (Fin 100) literal_1_05) = Fin 105
   \<and> addBonus \<lparr>score_value = Fin 100\<rparr> \<lparr>bonus_type = NO_HINTS, multiplier = literal_1_05\<rparr>
       = Inl ScoreOutOfRange"
proof -
  have a: "Math_round (js_mul (Fin 100) literal_1_05) = Fin 105"
    by (simp add: addBonus_examples(5) floor_rat_numeral)
  have b: "js_gt (Math_round (js_mul (score_value s) (multiplier b))) (Fin 100)
        \<longrightarrow> addBonus s b = Inl ScoreOutOfRange"
    by (simp add: addBonus_def new_Score_def)
  from new_Score_rejects [of v] a b addBonus_examples(4) show ?thesis
    by (intro conjI)
qed

theorem addBonus_above_100_throws_witness:
  "js_gt (Math_round (js_mul (Fin 100) literal_1_05)) (Fin 100)
   \<and> addBonus \<lparr>score_value = Fin 100\<rparr> \<lparr>bonus_type = NO_HINTS, multiplier = literal_1_05\<rparr>
       = Inl ScoreOutOfRange"
proof -
  note t = addBonus_above_100_throws [of "Fin 105" "\<lparr>score_value = Fin 100\<rparr>"
      "\<lparr>bonus_type = NO_HINTS, multiplier = literal_1_05\<rparr>"]
  from t have r: "Math_round (js_mul (Fin 100) literal_1_05) = Fin 105" by blast
  then have g: "js_gt (Math_round (js_mul (Fin 100) literal_1_05)) (Fin 100)"
    by (simp add: js_gt_def)
  from t have "addBonus \<lparr>score_value = Fin 100\<rparr>
      \<lparr>bonus_type = NO_HINTS, multiplier = literal_1_05\<rparr> = Inl ScoreOutOfRange"
    by blast
  with g show ?thesis by (intro conjI)
qed

end
